theory Spec2Isabelle
  imports Main
begin

section \<open>The WebSocket plumbing of server/src/wsServer.ts\<close>

text \<open>
  The class \<open>WSServer\<close> keeps a \<open>Map\<close> from client ids to \<open>WebSocket\<close> objects, forwards
  the transport's events to a pluggable \<open>AppLogic\<close> and offers three routing helpers.
  The embedding passes the state explicitly. What belongs to the host (the \<open>ws\<close>
  package, \<open>JSON.parse\<close>, \<open>JSON.stringify\<close>, \<open>Date.now\<close>, \<open>Math.random\<close>) is a
  parameter or an input of the model; \<open>console\<close> output is left out.
\<close>

subsection \<open>Outcomes of a call\<close>

text \<open>
  A JavaScript call either returns or throws. Mutations made before a throw stay, so
  both outcomes carry the state reached.
\<close>

datatype 'a outcome = Returns 'a | Throws 'a

fun final :: "'a outcome \<Rightarrow> 'a" where
  "final (Returns s) = s"
| "final (Throws s) = s"

fun returned :: "'a outcome \<Rightarrow> bool" where
  "returned (Returns s) = True"
| "returned (Throws s) = False"

text \<open>
  \<open>forEach\<close> of an array or a \<open>Map\<close>: the visitor runs on the entries in order; a throw
  of the visitor ends the iteration and leaves \<open>forEach\<close>.
\<close>

fun forEach :: "('a \<Rightarrow> 's \<Rightarrow> 's outcome) \<Rightarrow> 'a list \<Rightarrow> 's \<Rightarrow> 's outcome" where
  "forEach f [] s = Returns s"
| "forEach f (x # xs) s =
     (case f x s of Returns s' \<Rightarrow> forEach f xs s' | Throws s' \<Rightarrow> Throws s')"

subsection \<open>An ECMAScript Map, in insertion order\<close>

fun Map_set :: "'k \<Rightarrow> 'v \<Rightarrow> ('k \<times> 'v) list \<Rightarrow> ('k \<times> 'v) list" where
  "Map_set k v [] = [(k, v)]"
| "Map_set k v ((k', v') # kvs) =
     (if k' = k then (k, v) # kvs else (k', v') # Map_set k v kvs)"

definition Map_get :: "'k \<Rightarrow> ('k \<times> 'v) list \<Rightarrow> 'v option" where
  "Map_get k kvs = map_of kvs k"

definition Map_delete :: "'k \<Rightarrow> ('k \<times> 'v) list \<Rightarrow> ('k \<times> 'v) list" where
  "Map_delete k kvs = filter (\<lambda>kv. fst kv \<noteq> k) kvs"

definition Map_size :: "('k \<times> 'v) list \<Rightarrow> nat" where
  "Map_size kvs = length kvs"

subsection \<open>Messages (server/src/types.ts)\<close>

text \<open>The fields of a \<open>ChatMessage\<close>: username, text, timestamp, clientId.\<close>

datatype ChatMessage = ChatMessage string string nat string

datatype ServerMessage =
    Msg_welcome string
  | Msg_userJoined string
  | Msg_userLeft string
  | Msg_chatMessage ChatMessage
  | Msg_systemMessage string
  | Msg_error string

text \<open>
  The host's \<open>JSON.parse\<close> (\<open>None\<close> when it throws) and \<open>JSON.stringify\<close>.
  \<open>ClientMessage\<close> is a type of the compiler only: the cast \<open>as ClientMessage\<close> of
  the source checks nothing, and whatever \<open>JSON.parse\<close> returns is handed on. The
  type \<open>'j\<close> of parsed frames is left open here and is \<open>json\<close> below.
\<close>

record 'j host =
  JSON_parse :: "string \<Rightarrow> 'j option"
  JSON_stringify :: "ServerMessage \<Rightarrow> string"

subsection \<open>The transport\<close>

text \<open>
  A \<open>WebSocket\<close> object of the \<open>ws\<close> package, as far as the server uses it: its
  \<open>readyState\<close>, the data handed to \<open>send\<close> (oldest first), and the client ids bound in
  the listeners that \<open>setupClientHandlers\<close> registered on it. Objects live in a heap
  and are named by reference, as the registry holds references.
\<close>

datatype ReadyState = CONNECTING | OPEN | CLOSING | CLOSED

record WebSocket =
  readyState :: ReadyState
  sent :: "string list"
  listeners :: "string list"

type_synonym sock = nat

subsection \<open>The application logic (interface AppLogic)\<close>

text \<open>
  A callback of the application receives the state, the client id and the helpers. It
  can change the state, call helpers (which return nothing) and throw: that is its
  \<open>reaction\<close>. \<open>calls\<close> are the helper calls made, in order, up to a throw if there
  is one. A callback sees neither the registry nor the sockets, so its reaction
  depends on the state, the id and the message only.
\<close>

datatype helper_call =
    SendTo string ServerMessage
  | BroadcastAll ServerMessage
  | BroadcastExcept string ServerMessage

record 'st reaction =
  next_state :: 'st
  calls :: "helper_call list"
  throws :: bool

record ('st, 'j) AppLogic =
  createInitialState :: 'st
  handleConnect :: "'st \<Rightarrow> string \<Rightarrow> 'st reaction"
  handleDisconnect :: "'st \<Rightarrow> string \<Rightarrow> 'st reaction"
  handleMessage :: "'st \<Rightarrow> string \<Rightarrow> 'j \<Rightarrow> 'st reaction"

datatype 'j callback =
    HandleConnect string
  | HandleDisconnect string
  | HandleMessage string 'j

subsection \<open>The server object and its surroundings\<close>

text \<open>
  \<open>wss_closed\<close>, \<open>clients\<close>, \<open>appLogic\<close> and \<open>state\<close> are the fields of the class
  (\<open>wss_closed\<close>: \<open>wss.close()\<close> has been called). The rest is what the server acts on
  and what the claims observe: the heap of \<open>WebSocket\<close> objects, the next free
  reference, the callbacks of the application invoked so far and the messages handed
  to \<open>JSON.stringify\<close> so far (both oldest first).
\<close>

record ('st, 'j) WSServer =
  wss_closed :: bool
  clients :: "(string \<times> sock) list"
  appLogic :: "('st, 'j) AppLogic"
  state :: 'st
  heap :: "sock \<Rightarrow> WebSocket"
  next_ws :: sock
  invoked :: "'j callback list"
  stringified :: "ServerMessage list"

definition new_WSServer :: "('st, 'j) AppLogic \<Rightarrow> ('st, 'j) WSServer" where
  "new_WSServer logic =
     \<lparr> wss_closed = False, clients = [], appLogic = logic,
       state = createInitialState logic,
       heap = (\<lambda>ws. \<lparr> readyState = CLOSED, sent = [], listeners = [] \<rparr>),
       next_ws = 0, invoked = [], stringified = [] \<rparr>"

text \<open>
  \<open>ws.send(data)\<close>: the data is written on an open socket. On a socket that is not
  open the \<open>ws\<close> package writes nothing and fails (it throws, or reports the error to
  a callback the server does not pass); the model takes the throw.
\<close>

definition ws_send :: "sock \<Rightarrow> string \<Rightarrow> ('st, 'j) WSServer \<Rightarrow> ('st, 'j) WSServer outcome" where
  "ws_send ws data srv =
     (if readyState (heap srv ws) = OPEN
      then Returns (srv\<lparr> heap := (heap srv)(ws := (heap srv ws)\<lparr> sent := sent (heap srv ws) @ [data] \<rparr>) \<rparr>)
      else Throws srv)"

text \<open>
  \<open>ws.close()\<close> starts the closing handshake: an open or connecting socket becomes
  \<open>CLOSING\<close>. Its \<open>close\<close> event is emitted later, as an event of its own.
\<close>

definition ws_close :: "sock \<Rightarrow> ('st, 'j) WSServer \<Rightarrow> ('st, 'j) WSServer" where
  "ws_close ws srv =
     (if readyState (heap srv ws) = OPEN \<or> readyState (heap srv ws) = CONNECTING
      then srv\<lparr> heap := (heap srv)(ws := (heap srv ws)\<lparr> readyState := CLOSING \<rparr>) \<rparr>
      else srv)"

subsection \<open>generateClientId\<close>

definition digit_char :: "nat \<Rightarrow> char" where
  "digit_char d = char_of (48 + d)"

fun decimal :: "nat \<Rightarrow> string" where
  "decimal n = (if n < 10 then [digit_char n] else decimal (n div 10) @ [digit_char (n mod 10)])"

declare decimal.simps [simp del]

definition substring :: "nat \<Rightarrow> nat \<Rightarrow> string \<Rightarrow> string" where
  "substring start end s = take (max start end - min start end) (drop (min start end) s)"

text \<open>
  \<open>now\<close> is the value of \<open>Date.now()\<close> and \<open>random36\<close> the text of
  \<open>Math.random().toString(36)\<close>, such as \<open>0.i\<close> for one half.
\<close>

definition generateClientId :: "nat \<Rightarrow> string \<Rightarrow> string" where
  "generateClientId now random36 =
     ''client_'' @ decimal now @ ''_'' @ substring 2 11 random36"

subsection \<open>Routing helpers\<close>

definition broadcastAll ::
  "'j host \<Rightarrow> ServerMessage \<Rightarrow> ('st, 'j) WSServer \<Rightarrow> ('st, 'j) WSServer outcome" where
  "broadcastAll H message srv =
     (let data = JSON_stringify H message;
          srv1 = srv\<lparr> stringified := stringified srv @ [message] \<rparr>
      in forEach (\<lambda>(clientId, ws) s.
            if readyState (heap s ws) = OPEN then ws_send ws data s else Returns s)
           (clients srv1) srv1)"

definition sendTo ::
  "'j host \<Rightarrow> string \<Rightarrow> ServerMessage \<Rightarrow> ('st, 'j) WSServer \<Rightarrow> ('st, 'j) WSServer outcome" where
  "sendTo H clientId message srv =
     (case Map_get clientId (clients srv) of
        None \<Rightarrow> Returns srv
      | Some ws \<Rightarrow>
          if readyState (heap srv ws) = OPEN
          then ws_send ws (JSON_stringify H message)
                 (srv\<lparr> stringified := stringified srv @ [message] \<rparr>)
          else Returns srv)"

definition broadcastExcept ::
  "'j host \<Rightarrow> string \<Rightarrow> ServerMessage \<Rightarrow> ('st, 'j) WSServer \<Rightarrow> ('st, 'j) WSServer outcome" where
  "broadcastExcept H excludeClientId message srv =
     (let data = JSON_stringify H message;
          srv1 = srv\<lparr> stringified := stringified srv @ [message] \<rparr>
      in forEach (\<lambda>(clientId, ws) s.
            if clientId \<noteq> excludeClientId \<and> readyState (heap s ws) = OPEN
            then ws_send ws data s else Returns s)
           (clients srv1) srv1)"

definition getClientCount :: "('st, 'j) WSServer \<Rightarrow> nat" where
  "getClientCount srv = Map_size (clients srv)"

definition close :: "('st, 'j) WSServer \<Rightarrow> ('st, 'j) WSServer" where
  "close srv = (fold (\<lambda>(clientId, ws) s. ws_close ws s) (clients srv) srv)\<lparr> wss_closed := True \<rparr>"

subsection \<open>Invoking the application\<close>

text \<open>
  \<open>createHelpers\<close> gives the application the three helpers; a helper call of a
  callback runs on the server as it is at that moment.
\<close>

fun call_helper ::
  "'j host \<Rightarrow> helper_call \<Rightarrow> ('st, 'j) WSServer \<Rightarrow> ('st, 'j) WSServer outcome" where
  "call_helper H (SendTo clientId message) srv = sendTo H clientId message srv"
| "call_helper H (BroadcastAll message) srv = broadcastAll H message srv"
| "call_helper H (BroadcastExcept excludeClientId message) srv =
     broadcastExcept H excludeClientId message srv"

text \<open>
  One invocation of a callback: the invocation is recorded, the callback leaves its
  state, its helper calls run in order, and it returns or throws. A helper that
  threw would end the callback with that throw.
\<close>

definition invoke ::
  "'j host \<Rightarrow> 'j callback \<Rightarrow> 'st reaction \<Rightarrow> ('st, 'j) WSServer \<Rightarrow> ('st, 'j) WSServer outcome" where
  "invoke H cb r srv =
     (case forEach (call_helper H) (calls r)
             (srv\<lparr> invoked := invoked srv @ [cb], state := next_state r \<rparr>) of
        Returns srv' \<Rightarrow> if throws r then Throws srv' else Returns srv'
      | Throws srv' \<Rightarrow> Throws srv')"

subsection \<open>The listeners of setupClientHandlers and setupWebSocketServer\<close>

definition message_listener ::
  "'j host \<Rightarrow> string \<Rightarrow> string \<Rightarrow> ('st, 'j) WSServer \<Rightarrow> ('st, 'j) WSServer outcome" where
  "message_listener H clientId data srv =
     (case JSON_parse H data of
        None \<Rightarrow> sendTo H clientId (Msg_error ''Invalid message format'') srv
      | Some message \<Rightarrow>
          (case invoke H (HandleMessage clientId message)
                  (handleMessage (appLogic srv) (state srv) clientId message) srv of
             Returns srv' \<Rightarrow> Returns srv'
           | Throws srv' \<Rightarrow> sendTo H clientId (Msg_error ''Invalid message format'') srv'))"

definition close_listener ::
  "'j host \<Rightarrow> string \<Rightarrow> ('st, 'j) WSServer \<Rightarrow> ('st, 'j) WSServer outcome" where
  "close_listener H clientId srv =
     (let srv1 = srv\<lparr> clients := Map_delete clientId (clients srv) \<rparr>
      in invoke H (HandleDisconnect clientId)
           (handleDisconnect (appLogic srv1) (state srv1) clientId) srv1)"

definition error_listener ::
  "string \<Rightarrow> ('st, 'j) WSServer \<Rightarrow> ('st, 'j) WSServer outcome" where
  "error_listener clientId srv = Returns srv"

definition setupClientHandlers ::
  "sock \<Rightarrow> string \<Rightarrow> ('st, 'j) WSServer \<Rightarrow> ('st, 'j) WSServer" where
  "setupClientHandlers ws clientId srv =
     srv\<lparr> heap := (heap srv)(ws := (heap srv ws)\<lparr> listeners := listeners (heap srv ws) @ [clientId] \<rparr>) \<rparr>"

definition connection_listener ::
  "'j host \<Rightarrow> sock \<Rightarrow> nat \<Rightarrow> string \<Rightarrow> ('st, 'j) WSServer \<Rightarrow> ('st, 'j) WSServer outcome" where
  "connection_listener H ws now random36 srv =
     (let clientId = generateClientId now random36;
          srv1 = srv\<lparr> clients := Map_set clientId ws (clients srv) \<rparr>;
          srv2 = setupClientHandlers ws clientId srv1
      in invoke H (HandleConnect clientId)
           (handleConnect (appLogic srv2) (state srv2) clientId) srv2)"

subsection \<open>Events\<close>

text \<open>
  What happens to a server: the transport accepts a connection (a new \<open>WebSocket\<close>
  object, open, with the clock and random readings of that moment), emits
  \<open>message\<close>, \<open>close\<close> or \<open>error\<close> on a socket, changes a socket's \<open>readyState\<close>, or the
  host calls \<open>close()\<close>. An event of a socket runs the listeners registered on it.
  The \<open>error\<close> listener of the \<open>WebSocketServer\<close> itself only logs and is left out.
\<close>

datatype event =
    OnConnection nat string
  | OnMessage sock string
  | OnClose sock
  | OnError sock
  | Transport sock ReadyState
  | CallClose

definition emit ::
  "(string \<Rightarrow> ('st, 'j) WSServer \<Rightarrow> ('st, 'j) WSServer outcome) \<Rightarrow> sock \<Rightarrow>
   ('st, 'j) WSServer \<Rightarrow> ('st, 'j) WSServer outcome" where
  "emit listener ws srv = forEach listener (listeners (heap srv ws)) srv"

definition accept :: "('st, 'j) WSServer \<Rightarrow> ('st, 'j) WSServer" where
  "accept srv =
     srv\<lparr> heap := (heap srv)(next_ws srv := \<lparr> readyState = OPEN, sent = [], listeners = [] \<rparr>),
          next_ws := Suc (next_ws srv) \<rparr>"

fun step :: "'j host \<Rightarrow> event \<Rightarrow> ('st, 'j) WSServer \<Rightarrow> ('st, 'j) WSServer outcome" where
  "step H (OnConnection now random36) srv =
     connection_listener H (next_ws srv) now random36 (accept srv)"
| "step H (OnMessage ws data) srv = emit (\<lambda>clientId. message_listener H clientId data) ws srv"
| "step H (OnClose ws) srv = emit (close_listener H) ws srv"
| "step H (OnError ws) srv = emit error_listener ws srv"
| "step H (Transport ws rs) srv =
     Returns (srv\<lparr> heap := (heap srv)(ws := (heap srv ws)\<lparr> readyState := rs \<rparr>) \<rparr>)"
| "step H CallClose srv = Returns (close srv)"

text \<open>
  Events are handled one at a time. An exception that leaves a listener is uncaught:
  the process ends (server/src/index.ts exits on \<open>uncaughtException\<close>), so no later
  event is handled.
\<close>

definition run :: "'j host \<Rightarrow> event list \<Rightarrow> ('st, 'j) WSServer \<Rightarrow> ('st, 'j) WSServer outcome" where
  "run H evs srv = forEach (step H) evs srv"

subsection \<open>Observations\<close>

text \<open>How often \<open>handleConnect\<close> and \<open>handleDisconnect\<close> were invoked.\<close>

fun is_connect :: "'j callback \<Rightarrow> bool" where
  "is_connect (HandleConnect clientId) = True"
| "is_connect cb = False"

fun is_disconnect :: "'j callback \<Rightarrow> bool" where
  "is_disconnect (HandleDisconnect clientId) = True"
| "is_disconnect cb = False"

definition connects :: "'j callback list \<Rightarrow> nat" where
  "connects cbs = length (filter is_connect cbs)"

definition disconnects :: "'j callback list \<Rightarrow> nat" where
  "disconnects cbs = length (filter is_disconnect cbs)"

text \<open>The ids generated for the connections of an event list, and the sockets it closes.\<close>

fun accepted_ids :: "event list \<Rightarrow> string list" where
  "accepted_ids [] = []"
| "accepted_ids (OnConnection now random36 # evs) = generateClientId now random36 # accepted_ids evs"
| "accepted_ids (e # evs) = accepted_ids evs"

fun closed_socks :: "event list \<Rightarrow> sock list" where
  "closed_socks [] = []"
| "closed_socks (OnClose ws # evs) = ws # closed_socks evs"
| "closed_socks (e # evs) = closed_socks evs"

text \<open>
  What a broadcast leaves in the heap: every open socket has received \<open>data\<close> once
  for each registry entry that refers to it and whose id satisfies \<open>P\<close>.
\<close>

definition deliver ::
  "(string \<Rightarrow> bool) \<Rightarrow> string \<Rightarrow> (string \<times> sock) list \<Rightarrow> (sock \<Rightarrow> WebSocket) \<Rightarrow> sock \<Rightarrow> WebSocket" where
  "deliver P data kvs h =
     (\<lambda>ws. if readyState (h ws) = OPEN
           then (h ws)\<lparr> sent := sent (h ws) @
                  replicate (length (filter (\<lambda>kv. snd kv = ws \<and> P (fst kv)) kvs)) data \<rparr>
           else h ws)"

text \<open>
  \<open>routed srv srv'\<close>: \<open>srv'\<close> differs from \<open>srv\<close> at most in the data sent on sockets
  and in the record of serializations.
\<close>

definition routed :: "('st, 'j) WSServer \<Rightarrow> ('st, 'j) WSServer \<Rightarrow> bool" where
  "routed srv srv' \<longleftrightarrow>
     wss_closed srv' = wss_closed srv \<and> clients srv' = clients srv \<and>
     appLogic srv' = appLogic srv \<and> state srv' = state srv \<and>
     next_ws srv' = next_ws srv \<and> invoked srv' = invoked srv \<and>
     (\<forall>ws. readyState (heap srv' ws) = readyState (heap srv ws) \<and>
           listeners (heap srv' ws) = listeners (heap srv ws))"

subsection \<open>JSON text\<close>

text \<open>
  \<open>JSON.parse\<close> of ECMAScript on the text of a frame. Text is a list of bytes, the
  UTF-8 form of the string (\<open>data.toString()\<close>), and a string value is kept in the
  same form; an escaped half of a surrogate pair, which has no UTF-8 form, is kept
  as the three bytes its code unit would take. A number is kept as its numeral: the
  double it denotes is not computed. An object keeps its members in the order
  written, a repeated key keeping its place and taking the last value.
\<close>

datatype json =
    JNull
  | JBool bool
  | JNumber string
  | JString string
  | JArray "json list"
  | JObject "(string \<times> json) list"

definition dquote :: char where
  "dquote = CHR 0x22"

definition backslash :: char where
  "backslash = CHR 0x5C"

datatype token =
    T_lbrace | T_rbrace | T_lbracket | T_rbracket | T_colon | T_comma
  | T_string string | T_number string | T_true | T_false | T_null

definition is_ws :: "char \<Rightarrow> bool" where
  "is_ws c \<longleftrightarrow> c = CHR 0x20 \<or> c = CHR 0x09 \<or> c = CHR 0x0A \<or> c = CHR 0x0D"

definition is_digit :: "char \<Rightarrow> bool" where
  "is_digit c \<longleftrightarrow> c \<in> set ''0123456789''"

definition hex_value :: "char \<Rightarrow> nat option" where
  "hex_value c =
     (if c \<in> set ''0123456789'' then Some (of_char c - 48)
      else if c \<in> set ''abcdef'' then Some (of_char c - 87)
      else if c \<in> set ''ABCDEF'' then Some (of_char c - 55)
      else None)"

definition hex4 :: "char \<Rightarrow> char \<Rightarrow> char \<Rightarrow> char \<Rightarrow> nat option" where
  "hex4 a b c d =
     (case (hex_value a, hex_value b, hex_value c, hex_value d) of
        (Some h, Some i, Some j, Some k) \<Rightarrow> Some (((h * 16 + i) * 16 + j) * 16 + k)
      | _ \<Rightarrow> None)"

definition simple_escape :: "char \<Rightarrow> char option" where
  "simple_escape e =
     (if e = dquote then Some dquote
      else if e = backslash then Some backslash
      else if e = CHR ''/'' then Some CHR ''/''
      else if e = CHR ''b'' then Some (CHR 0x08)
      else if e = CHR ''f'' then Some (CHR 0x0C)
      else if e = CHR ''n'' then Some (CHR 0x0A)
      else if e = CHR ''r'' then Some (CHR 0x0D)
      else if e = CHR ''t'' then Some (CHR 0x09)
      else None)"

datatype code = Byte char | Unit16 nat

fun lex_string :: "string \<Rightarrow> (code list \<times> string) option" where
  "lex_string [] = None"
| "lex_string (c # cs) =
     (if c = dquote then Some ([], cs)
      else if c = backslash then
        (case cs of
           [] \<Rightarrow> None
         | e # cs' \<Rightarrow>
             if e = CHR ''u'' then
               (case cs' of
                  h1 # h2 # h3 # h4 # cs'' \<Rightarrow>
                    (case hex4 h1 h2 h3 h4 of
                       None \<Rightarrow> None
                     | Some n \<Rightarrow> map_option (\<lambda>(us, rest). (Unit16 n # us, rest)) (lex_string cs''))
                | _ \<Rightarrow> None)
             else
               (case simple_escape e of
                  None \<Rightarrow> None
                | Some b \<Rightarrow> map_option (\<lambda>(us, rest). (Byte b # us, rest)) (lex_string cs')))
      else if (of_char c :: nat) < 32 then None
      else map_option (\<lambda>(us, rest). (Byte c # us, rest)) (lex_string cs))"

definition utf8 :: "nat \<Rightarrow> string" where
  "utf8 n =
     (if n < 128 then [char_of n]
      else if n < 2048 then [char_of (192 + n div 64), char_of (128 + n mod 64)]
      else if n < 65536 then
        [char_of (224 + n div 4096), char_of (128 + n div 64 mod 64), char_of (128 + n mod 64)]
      else
        [char_of (240 + n div 262144), char_of (128 + n div 4096 mod 64),
         char_of (128 + n div 64 mod 64), char_of (128 + n mod 64)])"

fun encode :: "code list \<Rightarrow> string" where
  "encode [] = []"
| "encode (Byte c # us) = c # encode us"
| "encode [Unit16 n] = utf8 n"
| "encode (Unit16 n # Byte c # us) = utf8 n @ c # encode us"
| "encode (Unit16 h # Unit16 l # us) =
     (if 55296 \<le> h \<and> h < 56320 \<and> 56320 \<le> l \<and> l < 57344
      then utf8 (65536 + (h - 55296) * 1024 + (l - 56320)) @ encode us
      else utf8 h @ encode (Unit16 l # us))"

definition lex_int :: "string \<Rightarrow> (string \<times> string) option" where
  "lex_int s =
     (case s of
        [] \<Rightarrow> None
      | c # cs \<Rightarrow>
          if c = CHR ''0'' then Some ([c], cs)
          else if is_digit c then Some (c # takeWhile is_digit cs, dropWhile is_digit cs)
          else None)"

definition lex_frac :: "string \<Rightarrow> (string \<times> string) option" where
  "lex_frac s =
     (case s of
        [] \<Rightarrow> Some ([], [])
      | c # cs \<Rightarrow>
          if c = CHR ''.'' then
            (if takeWhile is_digit cs = [] then None
             else Some (c # takeWhile is_digit cs, dropWhile is_digit cs))
          else Some ([], s))"

definition lex_exp :: "string \<Rightarrow> (string \<times> string) option" where
  "lex_exp s =
     (case s of
        [] \<Rightarrow> Some ([], [])
      | c # cs \<Rightarrow>
          if c = CHR ''e'' \<or> c = CHR ''E'' then
            (let sign = (case cs of [] \<Rightarrow> [] | d # ds \<Rightarrow> if d = CHR ''+'' \<or> d = CHR ''-'' then [d] else []);
                 ds = drop (length sign) cs
             in if takeWhile is_digit ds = [] then None
                else Some (c # sign @ takeWhile is_digit ds, dropWhile is_digit ds))
          else Some ([], s))"

definition lex_number :: "string \<Rightarrow> (string \<times> string) option" where
  "lex_number s =
     (let sign = (case s of [] \<Rightarrow> [] | c # cs \<Rightarrow> if c = CHR ''-'' then [c] else [])
      in case lex_int (drop (length sign) s) of
           None \<Rightarrow> None
         | Some (i, s1) \<Rightarrow>
             (case lex_frac s1 of
                None \<Rightarrow> None
              | Some (f, s2) \<Rightarrow>
                  (case lex_exp s2 of
                     None \<Rightarrow> None
                   | Some (e, s3) \<Rightarrow> Some (sign @ i @ f @ e, s3))))"

definition literal :: "string \<Rightarrow> string \<Rightarrow> string option" where
  "literal p s = (if take (length p) s = p then Some (drop (length p) s) else None)"

lemma lex_string_shorter: "lex_string s = Some (us, rest) \<Longrightarrow> length rest < length s"
proof (induction s arbitrary: us rest rule: lex_string.induct)
  case 1
  then show ?case by simp
next
  case (2 c cs)
  show ?case
    using "2.prems" "2.IH"
    by (auto split: if_splits list.splits option.splits) force+
qed

lemma lex_int_shorter: "lex_int s = Some (v, rest) \<Longrightarrow> length rest < length s"
  by (auto simp add: lex_int_def split: list.splits if_splits
      intro: le_imp_less_Suc length_dropWhile_le)

lemma lex_frac_shorter: "lex_frac s = Some (v, rest) \<Longrightarrow> length rest \<le> length s"
  by (auto simp add: lex_frac_def split: list.splits if_splits
      intro: le_SucI length_dropWhile_le)

lemma lex_exp_shorter: "lex_exp s = Some (v, rest) \<Longrightarrow> length rest \<le> length s"
  by (auto simp add: lex_exp_def Let_def split: list.splits if_splits
      intro: le_SucI length_dropWhile_le order_trans [OF length_dropWhile_le])

lemma lex_number_shorter: "lex_number s = Some (v, rest) \<Longrightarrow> length rest < length s"
proof -
  assume a: "lex_number s = Some (v, rest)"
  let ?sign = "case s of [] \<Rightarrow> [] | c # cs \<Rightarrow> if c = CHR ''-'' then [c] else []"
  from a obtain i s1 f s2 e where
    1: "lex_int (drop (length ?sign) s) = Some (i, s1)" and
    2: "lex_frac s1 = Some (f, s2)" and
    3: "lex_exp s2 = Some (e, rest)"
    by (auto simp add: lex_number_def Let_def split: option.splits)
  have "length s1 < length (drop (length ?sign) s)" using 1 by (rule lex_int_shorter)
  moreover have "length s2 \<le> length s1" using 2 by (rule lex_frac_shorter)
  moreover have "length rest \<le> length s2" using 3 by (rule lex_exp_shorter)
  ultimately show ?thesis by simp
qed

lemma literal_shorter: "literal p s = Some rest \<Longrightarrow> length rest \<le> length s"
  by (auto simp add: literal_def split: if_splits)

definition punctuation :: "char \<Rightarrow> token option" where
  "punctuation c =
     (if c = CHR ''{'' then Some T_lbrace
      else if c = CHR ''}'' then Some T_rbrace
      else if c = CHR ''['' then Some T_lbracket
      else if c = CHR '']'' then Some T_rbracket
      else if c = CHR '':'' then Some T_colon
      else if c = CHR '','' then Some T_comma
      else None)"

definition keyword :: "char \<Rightarrow> (string \<times> token) option" where
  "keyword c =
     (if c = CHR ''t'' then Some (''rue'', T_true)
      else if c = CHR ''f'' then Some (''alse'', T_false)
      else if c = CHR ''n'' then Some (''ull'', T_null)
      else None)"

definition lex_token :: "char \<Rightarrow> string \<Rightarrow> (token \<times> string) option" where
  "lex_token c cs =
     (case punctuation c of
        Some t \<Rightarrow> Some (t, cs)
      | None \<Rightarrow>
          if c = dquote then map_option (\<lambda>(us, rest). (T_string (encode us), rest)) (lex_string cs)
          else if c = CHR ''-'' \<or> is_digit c then
            map_option (\<lambda>(n, rest). (T_number n, rest)) (lex_number (c # cs))
          else (case keyword c of
                  Some (p, t) \<Rightarrow> map_option (Pair t) (literal p cs)
                | None \<Rightarrow> None))"

lemma lex_token_shorter:
  assumes "lex_token c cs = Some (t, rest)"
  shows "length rest \<le> length cs"
proof (cases "punctuation c")
  case (Some p)
  then show ?thesis using assms by (simp add: lex_token_def)
next
  case None
  show ?thesis
  proof (cases "c = dquote")
    case True
    then obtain us where "lex_string cs = Some (us, rest)"
      using assms None by (auto simp add: lex_token_def)
    then show ?thesis using lex_string_shorter by fastforce
  next
    case quote: False
    show ?thesis
    proof (cases "c = CHR ''-'' \<or> is_digit c")
      case True
      then obtain n where "lex_number (c # cs) = Some (n, rest)"
        using assms None quote by (auto simp add: lex_token_def)
      then show ?thesis using lex_number_shorter by fastforce
    next
      case False
      then obtain p where "literal p cs = Some rest"
        using assms None quote by (auto simp add: lex_token_def split: option.splits)
      then show ?thesis by (rule literal_shorter)
    qed
  qed
qed

function tokens :: "string \<Rightarrow> token list option" where
  "tokens [] = Some []"
| "tokens (c # cs) =
     (if is_ws c then tokens cs
      else case lex_token c cs of
             None \<Rightarrow> None
           | Some (t, rest) \<Rightarrow> map_option ((#) t) (tokens rest))"
  by pat_completeness auto
termination
proof (relation "measure length")
  show "wf (measure length)" by simp
qed (auto dest: lex_token_shorter simp add: less_Suc_eq_le)

datatype frame = InArray "json list" | InObject "(string \<times> json) list" "string option"

datatype expect = E_value bool | E_key bool | E_colon | E_more | E_end json

fun close_value :: "json \<Rightarrow> frame list \<Rightarrow> (expect \<times> frame list) option" where
  "close_value v [] = Some (E_end v, [])"
| "close_value v (InArray xs # fs) = Some (E_more, InArray (xs @ [v]) # fs)"
| "close_value v (InObject ms (Some k) # fs) = Some (E_more, InObject (Map_set k v ms) None # fs)"
| "close_value v (InObject ms None # fs) = None"

definition shift :: "token \<Rightarrow> expect \<Rightarrow> frame list \<Rightarrow> (expect \<times> frame list) option" where
  "shift t e fs =
     (case e of
        E_value first \<Rightarrow>
          (case t of
             T_lbrace \<Rightarrow> Some (E_key True, InObject [] None # fs)
           | T_lbracket \<Rightarrow> Some (E_value True, InArray [] # fs)
           | T_rbracket \<Rightarrow>
               (if first then (case fs of InArray [] # fs' \<Rightarrow> close_value (JArray []) fs' | _ \<Rightarrow> None)
                else None)
           | T_string s \<Rightarrow> close_value (JString s) fs
           | T_number n \<Rightarrow> close_value (JNumber n) fs
           | T_true \<Rightarrow> close_value (JBool True) fs
           | T_false \<Rightarrow> close_value (JBool False) fs
           | T_null \<Rightarrow> close_value JNull fs
           | _ \<Rightarrow> None)
      | E_key first \<Rightarrow>
          (case t of
             T_string k \<Rightarrow>
               (case fs of
                  InObject ms None # fs' \<Rightarrow> Some (E_colon, InObject ms (Some k) # fs')
                | _ \<Rightarrow> None)
           | T_rbrace \<Rightarrow>
               (if first then (case fs of InObject ms None # fs' \<Rightarrow> close_value (JObject ms) fs' | _ \<Rightarrow> None)
                else None)
           | _ \<Rightarrow> None)
      | E_colon \<Rightarrow> (case t of T_colon \<Rightarrow> Some (E_value False, fs) | _ \<Rightarrow> None)
      | E_more \<Rightarrow>
          (case fs of
             InArray xs # fs' \<Rightarrow>
               (case t of
                  T_comma \<Rightarrow> Some (E_value False, fs)
                | T_rbracket \<Rightarrow> close_value (JArray xs) fs'
                | _ \<Rightarrow> None)
           | InObject ms None # fs' \<Rightarrow>
               (case t of
                  T_comma \<Rightarrow> Some (E_key False, fs)
                | T_rbrace \<Rightarrow> close_value (JObject ms) fs'
                | _ \<Rightarrow> None)
           | _ \<Rightarrow> None)
      | E_end v \<Rightarrow> None)"

fun parse_tokens :: "token list \<Rightarrow> expect \<Rightarrow> frame list \<Rightarrow> json option" where
  "parse_tokens [] (E_end v) fs = Some v"
| "parse_tokens [] e fs = None"
| "parse_tokens (t # ts) e fs =
     (case shift t e fs of None \<Rightarrow> None | Some (e', fs') \<Rightarrow> parse_tokens ts e' fs')"

definition JSON_parse_text :: "string \<Rightarrow> json option" where
  "JSON_parse_text data =
     (case tokens data of None \<Rightarrow> None | Some ts \<Rightarrow> parse_tokens ts (E_value False) [])"

subsection \<open>A concrete application and host\<close>

text \<open>
  \<open>testAppLogic\<close> of server/test/wsServer.test.ts: it keeps the list of connected
  ids, welcomes a new client, echoes the text of a \<open>sendMessage\<close> to everybody and
  answers any other message with an error. The message is whatever \<open>JSON.parse\<close>
  returned, so the callback is modelled on \<open>json\<close> with the rules of the language:
  reading a property of \<open>null\<close> or \<open>undefined\<close> throws, a missing property is
  \<open>undefined\<close> (\<open>None\<close>), and the template literal converts its value to a string.
\<close>

text \<open>
  \<open>member name v\<close> is \<open>v[name]\<close> for a value that is not \<open>null\<close>, for the names used
  here (\<open>type\<close>, \<open>payload\<close>, \<open>text\<close>), which no prototype defines.
\<close>

definition member :: "string \<Rightarrow> json \<Rightarrow> json option" where
  "member name v = (case v of JObject ms \<Rightarrow> map_of ms name | _ \<Rightarrow> None)"

text \<open>
  The string of a number. It is the numeral itself for an integer of at most fifteen
  digits written without fraction and exponent, \<open>-0\<close> apart. Other numerals are
  kept as written: their doubles are not modelled, and no example below has one.
\<close>

definition Number_toString :: "string \<Rightarrow> string" where
  "Number_toString n = (if n = ''-0'' then ''0'' else n)"

fun join_with :: "string \<Rightarrow> string list \<Rightarrow> string" where
  "join_with sep [] = []"
| "join_with sep [x] = x"
| "join_with sep (x # xs) = x @ sep @ join_with sep xs"

text \<open>
  ToString of a value inside a template literal; \<open>None\<close> is a TypeError. An array
  joins its elements with commas, \<open>null\<close> elements giving the empty string. A plain
  object gives \<open>[object Object]\<close>, unless a member named \<open>toString\<close> hides the
  method: then the conversion finds nothing to call and throws.
\<close>

fun ToString :: "json \<Rightarrow> string option" where
  "ToString JNull = Some ''null''"
| "ToString (JBool b) = Some (if b then ''true'' else ''false'')"
| "ToString (JNumber n) = Some (Number_toString n)"
| "ToString (JString s) = Some s"
| "ToString (JArray xs) =
     (let parts = map (\<lambda>x. if x = JNull then Some [] else ToString x) xs
      in if None \<in> set parts then None else Some (join_with '','' (map the parts)))"
| "ToString (JObject ms) =
     (if ''toString'' \<in> fst ` set ms then None else Some ''[object Object]'')"

record TestState =
  connections :: "string list"

definition thrown :: "'st \<Rightarrow> 'st reaction" where
  "thrown st = \<lparr> next_state = st, calls = [], throws = True \<rparr>"

definition testAppLogic :: "(TestState, json) AppLogic" where
  "testAppLogic =
     \<lparr> createInitialState = \<lparr> connections = [] \<rparr>,
       handleConnect = (\<lambda>st clientId.
         \<lparr> next_state = st\<lparr> connections := connections st @ [clientId] \<rparr>,
           calls = [SendTo clientId (Msg_welcome clientId)], throws = False \<rparr>),
       handleDisconnect = (\<lambda>st clientId.
         \<lparr> next_state = st\<lparr> connections := filter (\<lambda>i. i \<noteq> clientId) (connections st) \<rparr>,
           calls = [], throws = False \<rparr>),
       handleMessage = (\<lambda>st clientId message.
         if message = JNull then thrown st
         else if member ''type'' message = Some (JString ''sendMessage'') then
           (case member ''payload'' message of
              None \<Rightarrow> thrown st
            | Some payload \<Rightarrow>
                if payload = JNull then thrown st
                else (case (case member ''text'' payload of
                              None \<Rightarrow> Some ''undefined''
                            | Some v \<Rightarrow> ToString v) of
                        None \<Rightarrow> thrown st
                      | Some txt \<Rightarrow>
                          \<lparr> next_state = st,
                            calls = [BroadcastAll (Msg_systemMessage (''echo:'' @ txt))],
                            throws = False \<rparr>))
         else
           \<lparr> next_state = st,
             calls = [SendTo clientId (Msg_error ''Unknown message type'')], throws = False \<rparr>) \<rparr>"


text \<open>
  The host of the examples: \<open>JSON.parse\<close> as above, and \<open>JSON.stringify\<close> on the
  messages of types.ts, with the string quoting of ECMAScript (QuoteJSONString).
\<close>

definition hex_digit :: "nat \<Rightarrow> char" where
  "hex_digit d = (if d < 10 then char_of (48 + d) else char_of (87 + d))"

definition QuoteJSONChar :: "char \<Rightarrow> string" where
  "QuoteJSONChar c =
     (let n = (of_char c :: nat) in
      if n = 8 then [backslash, CHR ''b'']
      else if n = 9 then [backslash, CHR ''t'']
      else if n = 10 then [backslash, CHR ''n'']
      else if n = 12 then [backslash, CHR ''f'']
      else if n = 13 then [backslash, CHR ''r'']
      else if n = 34 then [backslash, dquote]
      else if n = 92 then [backslash, backslash]
      else if n < 32 then
        [backslash, CHR ''u'', CHR ''0'', CHR ''0'', hex_digit (n div 16), hex_digit (n mod 16)]
      else [c])"

text \<open>
  Half a surrogate pair (the bytes \<open>ED A0..BF xx\<close>, which well-formed UTF-8 never
  has) is written as an escape of four hex digits; every other character by
  \<open>QuoteJSONChar\<close>.
\<close>

fun quote_chars :: "string \<Rightarrow> string" where
  "quote_chars (a # b # c # cs) =
     (if a = CHR 0xED \<and> 160 \<le> (of_char b :: nat)
      then (let x = (of_char b - 128) * 64 + (of_char c - 128 :: nat)
            in [backslash, CHR ''u'', CHR ''d'', hex_digit (x div 256), hex_digit (x div 16 mod 16),
                hex_digit (x mod 16)]) @ quote_chars cs
      else QuoteJSONChar a @ quote_chars (b # c # cs))"
| "quote_chars (a # cs) = QuoteJSONChar a @ quote_chars cs"
| "quote_chars [] = []"

definition QuoteJSONString :: "string \<Rightarrow> string" where
  "QuoteJSONString s = dquote # quote_chars s @ [dquote]"

fun members :: "(string \<times> string) list \<Rightarrow> string" where
  "members [] = []"
| "members [(k, v)] = QuoteJSONString k @ '':'' @ v"
| "members ((k, v) # kvs) = QuoteJSONString k @ '':'' @ v @ '','' @ members kvs"

definition object :: "(string \<times> string) list \<Rightarrow> string" where
  "object kvs = ''{'' @ members kvs @ ''}''"

definition envelope :: "string \<Rightarrow> (string \<times> string) list \<Rightarrow> string" where
  "envelope tag payload =
     object [(''type'', QuoteJSONString tag), (''payload'', object payload)]"

fun stringify_ServerMessage :: "ServerMessage \<Rightarrow> string" where
  "stringify_ServerMessage (Msg_welcome clientId) =
     envelope ''welcome'' [(''clientId'', QuoteJSONString clientId)]"
| "stringify_ServerMessage (Msg_userJoined username) =
     envelope ''userJoined'' [(''username'', QuoteJSONString username)]"
| "stringify_ServerMessage (Msg_userLeft username) =
     envelope ''userLeft'' [(''username'', QuoteJSONString username)]"
| "stringify_ServerMessage (Msg_chatMessage (ChatMessage username txt timestamp clientId)) =
     envelope ''chatMessage''
       [(''username'', QuoteJSONString username), (''text'', QuoteJSONString txt),
        (''timestamp'', decimal timestamp), (''clientId'', QuoteJSONString clientId)]"
| "stringify_ServerMessage (Msg_systemMessage txt) =
     envelope ''systemMessage'' [(''text'', QuoteJSONString txt)]"
| "stringify_ServerMessage (Msg_error message) =
     envelope ''error'' [(''message'', QuoteJSONString message)]"

definition test_host :: "json host" where
  "test_host = \<lparr> JSON_parse = JSON_parse_text, JSON_stringify = stringify_ServerMessage \<rparr>"

text \<open>
  Frames of the examples: the chat frame the test sends, a frame that is JSON but no
  message of types.ts, and text that is not JSON.
\<close>

definition hi_frame :: string where
  "hi_frame = envelope ''sendMessage'' [(''text'', QuoteJSONString ''hi'')]"

definition foo_frame :: string where
  "foo_frame = object [(''foo'', ''1'')]"

text \<open>
  The registry of the spec's example: connections A, B and C, of which B is closing.
\<close>

definition abc_server :: "(TestState, json) WSServer" where
  "abc_server =
     (new_WSServer testAppLogic)
       \<lparr> clients := [(''A'', 0), (''B'', 1), (''C'', 2)],
         heap := (\<lambda>ws. \<lparr> readyState = (if ws = 1 then CLOSING else if ws < 3 then OPEN else CLOSED),
                        sent = [],
                        listeners = (if ws = 0 then [''A''] else if ws = 1 then [''B'']
                                     else if ws = 2 then [''C''] else []) \<rparr>),
         next_ws := 3 \<rparr>"


subsection \<open>The invariant of the registry\<close>

text \<open>
  What holds of the server after the events \<open>evs\<close>, as long as the generated ids
  differ and no socket closes twice: the keys of the registry are distinct and were
  generated; a socket has no listeners or those of one generated id; no two sockets
  share an id; a socket that has not closed is registered; and the registry holds
  as many entries as connects exceed disconnects. \<open>same_registry\<close>: two servers agree
  on all that the invariant reads.
\<close>

definition registry_inv :: "event list \<Rightarrow> ('st, 'j) WSServer \<Rightarrow> bool" where
  "registry_inv evs s \<longleftrightarrow>
     distinct (map fst (clients s)) \<and>
     fst ` set (clients s) \<subseteq> set (accepted_ids evs) \<and>
     (\<forall>ws. listeners (heap s ws) = [] \<or>
           (\<exists>clientId \<in> set (accepted_ids evs). listeners (heap s ws) = [clientId] \<and> ws < next_ws s)) \<and>
     (\<forall>ws ws'. listeners (heap s ws) \<noteq> [] \<and> listeners (heap s ws) = listeners (heap s ws') \<longrightarrow> ws = ws') \<and>
     (\<forall>ws clientId. listeners (heap s ws) = [clientId] \<and> ws \<notin> set (closed_socks evs) \<longrightarrow>
           clientId \<in> fst ` set (clients s)) \<and>
     Map_size (clients s) + disconnects (invoked s) = connects (invoked s)"

definition same_registry :: "('st, 'j) WSServer \<Rightarrow> ('st, 'j) WSServer \<Rightarrow> bool" where
  "same_registry s s' \<longleftrightarrow>
     clients s' = clients s \<and> next_ws s' = next_ws s \<and>
     connects (invoked s') = connects (invoked s) \<and>
     disconnects (invoked s') = disconnects (invoked s) \<and>
     (\<forall>ws. listeners (heap s' ws) = listeners (heap s ws))"

section \<open>Lemmas\<close>

subsection \<open>Iteration\<close>

lemma forEach_append:
  "forEach f (xs @ ys) s =
     (case forEach f xs s of Returns s' \<Rightarrow> forEach f ys s' | Throws s' \<Rightarrow> Throws s')"
  by (induction xs arbitrary: s) (auto split: outcome.splits)

lemma forEach_single: "forEach f [x] s = f x s"
  by (simp split: outcome.splits)

subsection \<open>The routing helpers in closed form\<close>

lemma deliver_Nil: "deliver P data [] h = h"
  by (rule ext) (simp add: deliver_def)

lemma deliver_Cons_skip:
  "\<not> (P k \<and> readyState (h w) = OPEN) \<Longrightarrow> deliver P data ((k, w) # kvs) h = deliver P data kvs h"
  by (rule ext) (auto simp add: deliver_def)

lemma deliver_Cons_send:
  "P k \<Longrightarrow> readyState (h w) = OPEN \<Longrightarrow>
   deliver P data ((k, w) # kvs) h = deliver P data kvs (h(w := (h w)\<lparr> sent := sent (h w) @ [data] \<rparr>))"
  by (rule ext) (auto simp add: deliver_def replicate_append_same)

lemma forEach_deliver:
  "forEach (\<lambda>(clientId, ws) s.
      if P clientId \<and> readyState (heap s ws) = OPEN then ws_send ws data s else Returns s) kvs srv
   = Returns (srv\<lparr> heap := deliver P data kvs (heap srv) \<rparr>)"
proof (induction kvs arbitrary: srv)
  case Nil
  show ?case by (simp add: deliver_Nil)
next
  case (Cons kv kvs)
  obtain k w where kv: "kv = (k, w)" by (cases kv)
  let ?vis = "\<lambda>(clientId, ws) s.
      if P clientId \<and> readyState (heap s ws) = OPEN then ws_send ws data s else Returns s"
  show ?case
  proof (cases "P k \<and> readyState (heap srv w) = OPEN")
    case True
    let ?srv' = "srv\<lparr> heap := (heap srv)(w := (heap srv w)\<lparr> sent := sent (heap srv w) @ [data] \<rparr>) \<rparr>"
    have "forEach ?vis (kv # kvs) srv = forEach ?vis kvs ?srv'"
      using True by (simp add: kv ws_send_def)
    also have "\<dots> = Returns (?srv'\<lparr> heap := deliver P data kvs (heap ?srv') \<rparr>)"
      by (rule Cons.IH)
    also have "\<dots> = Returns (srv\<lparr> heap := deliver P data (kv # kvs) (heap srv) \<rparr>)"
      using True by (simp add: kv deliver_Cons_send)
    finally show ?thesis .
  next
    case False
    have "forEach ?vis (kv # kvs) srv = forEach ?vis kvs srv"
      using False by (auto simp add: kv)
    also have "\<dots> = Returns (srv\<lparr> heap := deliver P data kvs (heap srv) \<rparr>)"
      by (rule Cons.IH)
    also have "\<dots> = Returns (srv\<lparr> heap := deliver P data (kv # kvs) (heap srv) \<rparr>)"
      using False by (simp add: kv deliver_Cons_skip)
    finally show ?thesis .
  qed
qed

lemma broadcastAll_eq:
  "broadcastAll H message srv =
     Returns (srv\<lparr> stringified := stringified srv @ [message],
                  heap := deliver (\<lambda>clientId. True) (JSON_stringify H message) (clients srv) (heap srv) \<rparr>)"
  using forEach_deliver [of "\<lambda>clientId. True" "JSON_stringify H message" "clients srv"
      "srv\<lparr> stringified := stringified srv @ [message] \<rparr>"]
  by (simp add: broadcastAll_def)

lemma broadcastExcept_eq:
  "broadcastExcept H excludeClientId message srv =
     Returns (srv\<lparr> stringified := stringified srv @ [message],
                  heap := deliver (\<lambda>clientId. clientId \<noteq> excludeClientId)
                            (JSON_stringify H message) (clients srv) (heap srv) \<rparr>)"
  using forEach_deliver [of "\<lambda>clientId. clientId \<noteq> excludeClientId" "JSON_stringify H message"
      "clients srv" "srv\<lparr> stringified := stringified srv @ [message] \<rparr>"]
  by (simp add: broadcastExcept_def)

lemma sendTo_eq:
  "sendTo H clientId message srv =
     (case Map_get clientId (clients srv) of
        None \<Rightarrow> Returns srv
      | Some ws \<Rightarrow>
          if readyState (heap srv ws) = OPEN
          then Returns (srv\<lparr> stringified := stringified srv @ [message],
                 heap := (heap srv)(ws := (heap srv ws)\<lparr> sent := sent (heap srv ws) @ [JSON_stringify H message] \<rparr>) \<rparr>)
          else Returns srv)"
  by (simp add: sendTo_def ws_send_def split: option.splits)

subsection \<open>Helpers only route\<close>

lemma routed_refl: "routed srv srv"
  by (simp add: routed_def)

lemma routed_trans: "routed a b \<Longrightarrow> routed b c \<Longrightarrow> routed a c"
  by (simp add: routed_def)

lemma routed_deliver:
  "routed srv (srv\<lparr> stringified := ms, heap := deliver P data kvs (heap srv) \<rparr>)"
  by (simp add: routed_def deliver_def)

lemma broadcastAll_routed:
  "returned (broadcastAll H message srv) \<and> routed srv (final (broadcastAll H message srv))"
  by (simp add: broadcastAll_eq routed_deliver)

lemma broadcastExcept_routed:
  "returned (broadcastExcept H x message srv) \<and> routed srv (final (broadcastExcept H x message srv))"
  by (simp add: broadcastExcept_eq routed_deliver)

lemma sendTo_routed:
  "returned (sendTo H clientId message srv) \<and> routed srv (final (sendTo H clientId message srv))"
  by (simp add: sendTo_eq routed_def split: option.splits)

lemma call_helper_routed:
  "returned (call_helper H c srv) \<and> routed srv (final (call_helper H c srv))"
  by (cases c) (simp_all add: broadcastAll_routed broadcastExcept_routed sendTo_routed)

lemma call_helpers_routed:
  "returned (forEach (call_helper H) cs srv) \<and> routed srv (final (forEach (call_helper H) cs srv))"
proof (induction cs arbitrary: srv)
  case Nil
  show ?case by (simp add: routed_refl)
next
  case (Cons c cs)
  obtain srv' where c: "call_helper H c srv = Returns srv'"
    using call_helper_routed [of H c srv] by (cases "call_helper H c srv") auto
  have "routed srv srv'"
    using call_helper_routed [of H c srv] by (simp add: c)
  then show ?case
    using Cons.IH [of srv'] by (auto simp add: c intro: routed_trans)
qed

lemma invoke_routed:
  "returned (invoke H cb r srv) = (\<not> throws r) \<and>
   routed (srv\<lparr> invoked := invoked srv @ [cb], state := next_state r \<rparr>) (final (invoke H cb r srv))"
proof -
  let ?s = "srv\<lparr> invoked := invoked srv @ [cb], state := next_state r \<rparr>"
  obtain srv' where c: "forEach (call_helper H) (calls r) ?s = Returns srv'"
    using call_helpers_routed [of H "calls r" ?s]
    by (cases "forEach (call_helper H) (calls r) ?s") auto
  have "routed ?s srv'"
    using call_helpers_routed [of H "calls r" ?s] by (simp add: c)
  then show ?thesis
    by (simp add: invoke_def c)
qed

subsection \<open>Closing the server\<close>

lemma fold_ws_close_heap:
  "heap (fold (\<lambda>(clientId, ws) s. ws_close ws s) kvs srv) ws =
     (if ws \<in> snd ` set kvs \<and>
         (readyState (heap srv ws) = OPEN \<or> readyState (heap srv ws) = CONNECTING)
      then (heap srv ws)\<lparr> readyState := CLOSING \<rparr> else heap srv ws)"
  by (induction kvs arbitrary: srv) (auto simp add: ws_close_def)

lemma fold_ws_close_rest:
  "clients (fold (\<lambda>(clientId, ws) s. ws_close ws s) kvs srv) = clients srv \<and>
   invoked (fold (\<lambda>(clientId, ws) s. ws_close ws s) kvs srv) = invoked srv \<and>
   next_ws (fold (\<lambda>(clientId, ws) s. ws_close ws s) kvs srv) = next_ws srv \<and>
   stringified (fold (\<lambda>(clientId, ws) s. ws_close ws s) kvs srv) = stringified srv"
  by (induction kvs arbitrary: srv) (auto simp add: ws_close_def)

lemma close_fields:
  "clients (close srv) = clients srv \<and> invoked (close srv) = invoked srv \<and>
   next_ws (close srv) = next_ws srv \<and> stringified (close srv) = stringified srv \<and>
   wss_closed (close srv) \<and>
   heap (close srv) ws =
     (if ws \<in> snd ` set (clients srv) \<and>
         (readyState (heap srv ws) = OPEN \<or> readyState (heap srv ws) = CONNECTING)
      then (heap srv ws)\<lparr> readyState := CLOSING \<rparr> else heap srv ws)"
  by (simp add: close_def fold_ws_close_heap fold_ws_close_rest)

subsection \<open>What the listeners change\<close>

lemma invoke_fields:
  "clients (final (invoke H cb r srv)) = clients srv \<and>
   invoked (final (invoke H cb r srv)) = invoked srv @ [cb] \<and>
   next_ws (final (invoke H cb r srv)) = next_ws srv \<and>
   appLogic (final (invoke H cb r srv)) = appLogic srv \<and>
   listeners (heap (final (invoke H cb r srv)) ws) = listeners (heap srv ws) \<and>
   readyState (heap (final (invoke H cb r srv)) ws) = readyState (heap srv ws)"
  using invoke_routed [of H cb r srv] by (simp add: routed_def)

lemma sendTo_fields:
  "clients (final (sendTo H clientId message srv)) = clients srv \<and>
   invoked (final (sendTo H clientId message srv)) = invoked srv \<and>
   next_ws (final (sendTo H clientId message srv)) = next_ws srv \<and>
   listeners (heap (final (sendTo H clientId message srv)) ws) = listeners (heap srv ws) \<and>
   readyState (heap (final (sendTo H clientId message srv)) ws) = readyState (heap srv ws)"
  using sendTo_routed [of H clientId message srv] by (simp add: routed_def)

lemma close_listener_fields:
  "clients (final (close_listener H clientId srv)) = Map_delete clientId (clients srv) \<and>
   invoked (final (close_listener H clientId srv)) = invoked srv @ [HandleDisconnect clientId] \<and>
   next_ws (final (close_listener H clientId srv)) = next_ws srv \<and>
   listeners (heap (final (close_listener H clientId srv)) ws) = listeners (heap srv ws)"
  by (simp add: close_listener_def Let_def invoke_fields)

lemma message_listener_fields:
  "clients (final (message_listener H clientId data srv)) = clients srv \<and>
   connects (invoked (final (message_listener H clientId data srv))) = connects (invoked srv) \<and>
   disconnects (invoked (final (message_listener H clientId data srv))) = disconnects (invoked srv) \<and>
   next_ws (final (message_listener H clientId data srv)) = next_ws srv \<and>
   listeners (heap (final (message_listener H clientId data srv)) ws) = listeners (heap srv ws)"
proof (cases "JSON_parse H data")
  case None
  then show ?thesis
    by (simp add: message_listener_def sendTo_fields)
next
  case (Some m)
  let ?i = "invoke H (HandleMessage clientId m) (handleMessage (appLogic srv) (state srv) clientId m) srv"
  have i: "clients (final ?i) = clients srv \<and> invoked (final ?i) = invoked srv @ [HandleMessage clientId m] \<and>
      next_ws (final ?i) = next_ws srv \<and> listeners (heap (final ?i) ws) = listeners (heap srv ws)"
    using invoke_fields [of H "HandleMessage clientId m" _ srv ws] by simp
  show ?thesis
  proof (cases ?i)
    case (Returns s')
    then show ?thesis
      using i by (simp add: message_listener_def Some connects_def disconnects_def)
  next
    case (Throws s')
    then show ?thesis
      using i by (simp add: message_listener_def Some sendTo_fields connects_def disconnects_def)
  qed
qed

lemma connection_listener_fields:
  "clients (final (connection_listener H ws now random36 srv)) =
     Map_set (generateClientId now random36) ws (clients srv) \<and>
   invoked (final (connection_listener H ws now random36 srv)) =
     invoked srv @ [HandleConnect (generateClientId now random36)] \<and>
   next_ws (final (connection_listener H ws now random36 srv)) = next_ws srv \<and>
   listeners (heap (final (connection_listener H ws now random36 srv)) w) =
     (if w = ws then listeners (heap srv ws) @ [generateClientId now random36]
      else listeners (heap srv w))"
  by (simp add: connection_listener_def Let_def invoke_fields setupClientHandlers_def)

subsection \<open>Registry and event loop\<close>

lemma Map_get_Map_delete: "Map_get k (Map_delete k kvs) = None"
  by (induction kvs) (auto simp add: Map_get_def Map_delete_def)

lemma length_Map_delete:
  "distinct (map fst kvs) \<Longrightarrow> k \<in> fst ` set kvs \<Longrightarrow> Suc (length (Map_delete k kvs)) = length kvs"
proof (induction kvs)
  case Nil
  then show ?case by simp
next
  case (Cons kv kvs)
  show ?case
  proof (cases "fst kv = k")
    case True
    then have "k \<notin> fst ` set kvs" using Cons.prems by auto
    then have "filter (\<lambda>kv. fst kv \<noteq> k) kvs = kvs"
      by (auto simp add: filter_id_conv)
    then show ?thesis using True by (simp add: Map_delete_def)
  next
    case False
    then show ?thesis using Cons by (auto simp add: Map_delete_def)
  qed
qed



lemma emit_single: "listeners (heap srv ws) = [clientId] \<Longrightarrow> emit f ws srv = f clientId srv"
  by (simp add: emit_def split: outcome.splits)

lemma emit_none: "listeners (heap srv ws) = [] \<Longrightarrow> emit f ws srv = Returns srv"
  by (simp add: emit_def)

subsection \<open>Identifiers\<close>

lemma digit_char_inj: "d < 10 \<Longrightarrow> e < 10 \<Longrightarrow> digit_char d = digit_char e \<Longrightarrow> d = e"
  by (simp add: digit_char_def)

lemma digit_char_not_sep: "d < 10 \<Longrightarrow> digit_char d \<noteq> CHR ''_''"
  by (simp add: digit_char_def char_of_eq_iff take_bit_eq_mod)

lemma decimal_not_Nil: "decimal n \<noteq> []"
  by (subst decimal.simps) simp

lemma sep_notin_decimal: "CHR ''_'' \<notin> set (decimal n)"
proof (induction n rule: decimal.induct)
  case (1 n)
  show ?case
  proof (cases "n < 10")
    case True
    then show ?thesis
      using digit_char_not_sep [of n] by (subst decimal.simps) auto
  next
    case False
    then show ?thesis
      using "1.IH" digit_char_not_sep [of "n mod 10"] by (subst decimal.simps) auto
  qed
qed

lemma decimal_inj: "decimal m = decimal n \<Longrightarrow> m = n"
proof (induction m arbitrary: n rule: decimal.induct)
  case (1 m)
  show ?case
  proof (cases "m < 10")
    case m: True
    show ?thesis
    proof (cases "n < 10")
      case True
      then show ?thesis
        using m "1.prems" digit_char_inj [of m n]
        by (simp add: decimal.simps [of m] decimal.simps [of n])
    next
      case False
      then show ?thesis
        using m "1.prems" decimal_not_Nil [of "n div 10"]
        by (simp add: decimal.simps [of m] decimal.simps [of n])
    qed
  next
    case m: False
    show ?thesis
    proof (cases "n < 10")
      case True
      then show ?thesis
        using m "1.prems" decimal_not_Nil [of "m div 10"]
        by (simp add: decimal.simps [of m] decimal.simps [of n])
    next
      case False
      then have "decimal (m div 10) = decimal (n div 10)" "digit_char (m mod 10) = digit_char (n mod 10)"
        using m "1.prems" by (simp_all add: decimal.simps [of m] decimal.simps [of n])
      then have "m div 10 = n div 10" "m mod 10 = n mod 10"
        using "1.IH" [OF m] digit_char_inj [of "m mod 10" "n mod 10"] by auto
      then show ?thesis
        by (metis div_mult_mod_eq)
    qed
  qed
qed

lemma split_at_separator:
  "c \<notin> set xs \<Longrightarrow> c \<notin> set ys \<Longrightarrow> xs @ c # us = ys @ c # vs \<Longrightarrow> xs = ys \<and> us = vs"
proof (induction xs arbitrary: ys)
  case Nil
  then show ?case by (cases ys) auto
next
  case (Cons x xs)
  then show ?case by (cases ys) auto
qed

lemma generateClientId_eq_iff:
  "generateClientId now1 r1 = generateClientId now2 r2 \<longleftrightarrow>
     now1 = now2 \<and> substring 2 11 r1 = substring 2 11 r2"
proof
  assume "generateClientId now1 r1 = generateClientId now2 r2"
  then have "decimal now1 @ CHR ''_'' # substring 2 11 r1 = decimal now2 @ CHR ''_'' # substring 2 11 r2"
    by (simp add: generateClientId_def)
  then have "decimal now1 = decimal now2 \<and> substring 2 11 r1 = substring 2 11 r2"
    by (rule split_at_separator [OF sep_notin_decimal sep_notin_decimal])
  then show "now1 = now2 \<and> substring 2 11 r1 = substring 2 11 r2"
    by (auto dest: decimal_inj)
next
  assume "now1 = now2 \<and> substring 2 11 r1 = substring 2 11 r2"
  then show "generateClientId now1 r1 = generateClientId now2 r2"
    by (simp add: generateClientId_def)
qed

lemma distinct_map_same_kernel:
  assumes "\<And>x y. h x = h y \<longleftrightarrow> g x = g y"
  shows "distinct (map h xs) \<longleftrightarrow> distinct (map g xs)"
proof (induction xs)
  case Nil
  show ?case by simp
next
  case (Cons x xs)
  have "h x \<in> h ` set xs \<longleftrightarrow> g x \<in> g ` set xs"
    using assms by (auto simp add: image_iff)
  then show ?case using Cons by simp
qed

subsection \<open>The invariant is kept\<close>

lemma accepted_ids_append: "accepted_ids (xs @ ys) = accepted_ids xs @ accepted_ids ys"
  by (induction xs rule: accepted_ids.induct) simp_all

lemma closed_socks_append: "closed_socks (xs @ ys) = closed_socks xs @ closed_socks ys"
  by (induction xs rule: closed_socks.induct) simp_all

lemma Map_set_fresh: "k \<notin> fst ` set kvs \<Longrightarrow> Map_set k v kvs = kvs @ [(k, v)]"
  by (induction kvs) auto

lemma keys_Map_delete: "fst ` set (Map_delete k kvs) = fst ` set kvs - {k}"
  by (auto simp add: Map_delete_def)

lemma distinct_Map_delete: "distinct (map fst kvs) \<Longrightarrow> distinct (map fst (Map_delete k kvs))"
  by (simp add: Map_delete_def distinct_map_filter)

lemma run_snoc:
  "run H (evs @ [e]) srv =
     (case run H evs srv of Returns s \<Rightarrow> step H e s | Throws s \<Rightarrow> Throws s)"
  by (simp add: run_def forEach_append del: step.simps split: outcome.splits)

text \<open>The invariant looks at the registry, the listeners, the next reference and the counts only.\<close>

lemma registry_inv_same:
  assumes "registry_inv evs s"
    and "clients s' = clients s"
    and "\<And>ws. listeners (heap s' ws) = listeners (heap s ws)"
    and "next_ws s' = next_ws s"
    and "connects (invoked s') = connects (invoked s)"
    and "disconnects (invoked s') = disconnects (invoked s)"
  shows "registry_inv evs s'"
  using assms unfolding registry_inv_def by (elim conjE, intro conjI) simp_all

lemma registry_inv_later:
  assumes "registry_inv evs s"
  shows "registry_inv (evs @ evs') s"
  using assms unfolding registry_inv_def accepted_ids_append closed_socks_append
  by auto


lemma step_connection_fields:
  "clients (final (step H (OnConnection now random36) s)) =
     Map_set (generateClientId now random36) (next_ws s) (clients s) \<and>
   invoked (final (step H (OnConnection now random36) s)) =
     invoked s @ [HandleConnect (generateClientId now random36)] \<and>
   next_ws (final (step H (OnConnection now random36) s)) = Suc (next_ws s) \<and>
   listeners (heap (final (step H (OnConnection now random36) s)) w) =
     (if w = next_ws s then [generateClientId now random36] else listeners (heap s w))"
  by (simp add: connection_listener_fields accept_def)

lemma inv_connection:
  fixes s :: "('st, 'j) WSServer" and H :: "'j host"
  assumes inv: "registry_inv evs s"
    and fresh: "generateClientId now random36 \<notin> set (accepted_ids evs)"
  shows "registry_inv (evs @ [OnConnection now random36]) (final (step H (OnConnection now random36) s))"
proof -
  let ?id = "generateClientId now random36"
  define f where "f = final (step H (OnConnection now random36) s)"
  have d: "distinct (map fst (clients s))"
    and sub: "fst ` set (clients s) \<subseteq> set (accepted_ids evs)"
    and shape: "\<And>ws. listeners (heap s ws) = [] \<or>
           (\<exists>clientId \<in> set (accepted_ids evs). listeners (heap s ws) = [clientId] \<and> ws < next_ws s)"
    and inj: "\<And>ws ws'. listeners (heap s ws) \<noteq> [] \<Longrightarrow>
           listeners (heap s ws) = listeners (heap s ws') \<Longrightarrow> ws = ws'"
    and reg: "\<And>ws clientId. listeners (heap s ws) = [clientId] \<Longrightarrow> ws \<notin> set (closed_socks evs) \<Longrightarrow>
           clientId \<in> fst ` set (clients s)"
    and cnt: "Map_size (clients s) + disconnects (invoked s) = connects (invoked s)"
    using inv unfolding registry_inv_def by blast+
  have notkey: "?id \<notin> fst ` set (clients s)"
    using fresh sub by blast
  have c: "clients f = clients s @ [(?id, next_ws s)]"
    unfolding f_def
    using step_connection_fields [of H now random36 s] Map_set_fresh [OF notkey]
    by (simp del: step.simps)
  have i: "invoked f = invoked s @ [HandleConnect ?id]"
    and n: "next_ws f = Suc (next_ws s)"
    and l: "\<And>w. listeners (heap f w) = (if w = next_ws s then [?id] else listeners (heap s w))"
    unfolding f_def using step_connection_fields [of H now random36 s] by blast+
  have acc: "accepted_ids (evs @ [OnConnection now random36]) = accepted_ids evs @ [?id]"
    and clo: "closed_socks (evs @ [OnConnection now random36]) = closed_socks evs"
    by (simp_all add: accepted_ids_append closed_socks_append)
  have old: "listeners (heap s w) \<noteq> [?id]" for w
    using shape [of w] fresh by auto
  have 1: "distinct (map fst (clients f))"
    using d notkey by (simp add: c)
  have 2: "fst ` set (clients f) \<subseteq> set (accepted_ids (evs @ [OnConnection now random36]))"
    using sub by (auto simp add: c acc)
  have 3: "listeners (heap f ws) = [] \<or>
      (\<exists>clientId \<in> set (accepted_ids (evs @ [OnConnection now random36])).
          listeners (heap f ws) = [clientId] \<and> ws < next_ws f)" for ws
    using shape [of ws] by (auto simp add: l n acc)
  have 4: "ws = ws'"
    if "listeners (heap f ws) \<noteq> []" "listeners (heap f ws) = listeners (heap f ws')" for ws ws'
    using that inj [of ws ws'] old [of ws] old [of ws']
    by (auto simp add: l split: if_splits)
  have 5: "clientId \<in> fst ` set (clients f)"
    if "listeners (heap f ws) = [clientId]" "ws \<notin> set (closed_socks (evs @ [OnConnection now random36]))"
    for ws clientId
    using that reg [of ws clientId] by (auto simp add: l c clo split: if_splits)
  have 6: "Map_size (clients f) + disconnects (invoked f) = connects (invoked f)"
    using cnt by (simp add: c i Map_size_def connects_def disconnects_def)
  show ?thesis
    unfolding registry_inv_def f_def [symmetric] using 1 2 3 4 5 6 by blast
qed

lemma inv_close:
  fixes s :: "('st, 'j) WSServer" and H :: "'j host"
  assumes inv: "registry_inv evs s"
    and first: "ws \<notin> set (closed_socks evs)"
  shows "registry_inv (evs @ [OnClose ws]) (final (step H (OnClose ws) s))"
proof -
  have shape: "listeners (heap s ws) = [] \<or> (\<exists>clientId. listeners (heap s ws) = [clientId])"
    using inv unfolding registry_inv_def by blast
  then show ?thesis
  proof
    assume "listeners (heap s ws) = []"
    then have "final (step H (OnClose ws) s) = s"
      by (simp add: emit_none)
    then show ?thesis
      using registry_inv_later [OF inv] by simp
  next
    assume "\<exists>clientId. listeners (heap s ws) = [clientId]"
    then obtain k where k: "listeners (heap s ws) = [k]" ..
    define f where "f = final (step H (OnClose ws) s)"
    have st: "step H (OnClose ws) s = close_listener H k s"
      using k by (simp add: emit_single)
    have d: "distinct (map fst (clients s))"
      and sub: "fst ` set (clients s) \<subseteq> set (accepted_ids evs)"
      and shape: "\<And>w. listeners (heap s w) = [] \<or>
           (\<exists>clientId \<in> set (accepted_ids evs). listeners (heap s w) = [clientId] \<and> w < next_ws s)"
      and inj: "\<And>w w'. listeners (heap s w) \<noteq> [] \<Longrightarrow>
           listeners (heap s w) = listeners (heap s w') \<Longrightarrow> w = w'"
      and reg: "\<And>w clientId. listeners (heap s w) = [clientId] \<Longrightarrow> w \<notin> set (closed_socks evs) \<Longrightarrow>
           clientId \<in> fst ` set (clients s)"
      and cnt: "Map_size (clients s) + disconnects (invoked s) = connects (invoked s)"
      using inv unfolding registry_inv_def by blast+
    have c: "clients f = Map_delete k (clients s)"
      and i: "invoked f = invoked s @ [HandleDisconnect k]"
      and n: "next_ws f = next_ws s"
      and l: "\<And>w. listeners (heap f w) = listeners (heap s w)"
      unfolding f_def using close_listener_fields [of H k s] by (simp_all add: st del: step.simps)
    have acc: "accepted_ids (evs @ [OnClose ws]) = accepted_ids evs"
      and clo: "closed_socks (evs @ [OnClose ws]) = closed_socks evs @ [ws]"
      by (simp_all add: accepted_ids_append closed_socks_append)
    have key: "k \<in> fst ` set (clients s)"
      using reg [OF k first] .
    have 1: "distinct (map fst (clients f))"
      using d by (simp add: c distinct_Map_delete)
    have 2: "fst ` set (clients f) \<subseteq> set (accepted_ids (evs @ [OnClose ws]))"
      using sub by (auto simp add: c acc keys_Map_delete)
    have 3: "listeners (heap f w) = [] \<or>
      (\<exists>clientId \<in> set (accepted_ids (evs @ [OnClose ws])).
          listeners (heap f w) = [clientId] \<and> w < next_ws f)" for w
      using shape [of w] by (simp add: l n acc)
    have 4: "w = w'"
      if "listeners (heap f w) \<noteq> []" "listeners (heap f w) = listeners (heap f w')" for w w'
      using that inj [of w w'] by (simp add: l)
    have 5: "clientId \<in> fst ` set (clients f)"
      if "listeners (heap f w) = [clientId]" "w \<notin> set (closed_socks (evs @ [OnClose ws]))"
      for w clientId
    proof -
      have w: "listeners (heap s w) = [clientId]" "w \<noteq> ws" "w \<notin> set (closed_socks evs)"
        using that by (simp_all add: l clo)
      have "clientId \<noteq> k"
        using inj [of w ws] w k by auto
      then show ?thesis
        using reg [OF w(1) w(3)] by (simp add: c keys_Map_delete)
    qed
    have 6: "Map_size (clients f) + disconnects (invoked f) = connects (invoked f)"
      using cnt length_Map_delete [OF d key]
      by (simp add: c i Map_size_def connects_def disconnects_def)
    show ?thesis
      unfolding registry_inv_def f_def [symmetric] using 1 2 3 4 5 6 by blast
  qed
qed

lemma forEach_preserves:
  assumes "\<And>x s. Q s \<Longrightarrow> Q (final (f x s))" and "Q s"
  shows "Q (final (forEach f xs s))"
  using assms(2)
proof (induction xs arbitrary: s)
  case Nil
  then show ?case by simp
next
  case (Cons x xs)
  have q: "Q (final (f x s))" using assms(1) Cons.prems .
  show ?case
  proof (cases "f x s")
    case (Returns s')
    then show ?thesis using q Cons.IH [of s'] by simp
  next
    case (Throws s')
    then show ?thesis using q by simp
  qed
qed

lemma message_listener_same_registry:
  "same_registry s0 s \<Longrightarrow> same_registry s0 (final (message_listener H clientId data s))"
  using message_listener_fields [of H clientId data s] by (simp add: same_registry_def)

lemma step_same_registry:
  fixes s :: "('st, 'j) WSServer" and H :: "'j host"
  assumes "\<And>now random36. e \<noteq> OnConnection now random36" and "\<And>ws. e \<noteq> OnClose ws"
  shows "same_registry s (final (step H e s))"
proof (cases e)
  case (OnConnection now random36)
  then show ?thesis using assms by simp
next
  case (OnMessage ws data)
  have "same_registry s (final (forEach (\<lambda>clientId. message_listener H clientId data)
      (listeners (heap s ws)) s))"
  proof (rule forEach_preserves [where Q = "same_registry s"])
    show "same_registry s s" by (simp add: same_registry_def)
    show "same_registry s (final (message_listener H x data sa))" if "same_registry s sa" for x sa
      using that by (rule message_listener_same_registry)
  qed
  then show ?thesis by (simp add: OnMessage emit_def)
next
  case (OnClose ws)
  then show ?thesis using assms by simp
next
  case (OnError ws)
  have "same_registry s (final (forEach error_listener (listeners (heap s ws)) s))"
  proof (rule forEach_preserves [where Q = "same_registry s"])
    show "same_registry s s" by (simp add: same_registry_def)
    show "same_registry s (final (error_listener x sa))" if "same_registry s sa" for x sa
      using that by (simp add: error_listener_def)
  qed
  then show ?thesis by (simp add: OnError emit_def)
next
  case (Transport ws rs)
  then show ?thesis by (simp add: same_registry_def)
next
  case CallClose
  then show ?thesis by (simp add: same_registry_def close_fields)
qed

lemma inv_step:
  fixes s :: "('st, 'j) WSServer" and H :: "'j host"
  assumes inv: "registry_inv evs s"
    and "distinct (accepted_ids (evs @ [e]))"
    and "distinct (closed_socks (evs @ [e]))"
  shows "registry_inv (evs @ [e]) (final (step H e s))"
proof (cases "(\<exists>now random36. e = OnConnection now random36) \<or> (\<exists>ws. e = OnClose ws)")
  case True
  then show ?thesis
  proof (elim disjE exE)
    fix now random36
    assume e: "e = OnConnection now random36"
    have "generateClientId now random36 \<notin> set (accepted_ids evs)"
      using assms(2) by (simp add: e accepted_ids_append)
    then show ?thesis
      unfolding e by (rule inv_connection [OF inv])
  next
    fix ws
    assume e: "e = OnClose ws"
    have "ws \<notin> set (closed_socks evs)"
      using assms(3) by (simp add: e closed_socks_append)
    then show ?thesis
      unfolding e by (rule inv_close [OF inv])
  qed
next
  case False
  define f where "f = final (step H e s)"
  have "same_registry s f"
    unfolding f_def using False by (intro step_same_registry) blast+
  then have "registry_inv (evs @ [e]) f"
    by (intro registry_inv_same [OF registry_inv_later [OF inv]]) (simp_all add: same_registry_def)
  then show ?thesis
    by (simp only: f_def)
qed

lemma inv_new: "registry_inv [] (new_WSServer logic)"
  by (simp add: registry_inv_def new_WSServer_def Map_size_def connects_def disconnects_def)

lemma inv_run:
  fixes H :: "'j host" and logic :: "('st, 'j) AppLogic"
  assumes "distinct (accepted_ids evs)" and "distinct (closed_socks evs)"
  shows "registry_inv evs (final (run H evs (new_WSServer logic)))"
  using assms
proof (induction evs rule: rev_induct)
  case Nil
  show ?case by (simp add: run_def inv_new)
next
  case (snoc e evs)
  have d: "distinct (accepted_ids evs)" "distinct (closed_socks evs)"
    using snoc.prems by (simp_all add: accepted_ids_append closed_socks_append)
  have inv: "registry_inv evs (final (run H evs (new_WSServer logic)))"
    using snoc.IH d by blast
  show ?case
  proof (cases "run H evs (new_WSServer logic)")
    case (Returns s)
    have "registry_inv evs s" using inv by (simp only: Returns final.simps)
    then have "registry_inv (evs @ [e]) (final (step H e s))"
      using snoc.prems by (rule inv_step)
    moreover have "run H (evs @ [e]) (new_WSServer logic) = step H e s"
      by (simp only: run_snoc Returns outcome.case)
    ultimately show ?thesis by (simp only:)
  next
    case (Throws s)
    have "registry_inv evs s" using inv by (simp only: Throws final.simps)
    then have "registry_inv (evs @ [e]) s"
      by (rule registry_inv_later)
    moreover have "run H (evs @ [e]) (new_WSServer logic) = Throws s"
      by (simp only: run_snoc Throws outcome.case)
    ultimately show ?thesis by (simp only: final.simps)
  qed
qed

subsection \<open>The frames of the examples\<close>

lemmas json_eval = JSON_parse_text_def is_ws_def is_digit_def dquote_def backslash_def lex_token_def
  punctuation_def keyword_def literal_def lex_number_def lex_int_def lex_frac_def lex_exp_def
  shift_def hex4_def hex_value_def simple_escape_def utf8_def

lemma parse_oops: "JSON_parse test_host ''oops'' = None"
  by (simp add: test_host_def json_eval)

lemma foo_frame_text: "foo_frame = [CHR ''{'', CHR 0x22, CHR ''f'', CHR ''o'', CHR ''o'', CHR 0x22, CHR '':'', CHR ''1'', CHR ''}'']"
  by (simp add: foo_frame_def object_def QuoteJSONString_def QuoteJSONChar_def dquote_def)

lemma parse_foo: "JSON_parse test_host foo_frame = Some (JObject [(''foo'', JNumber ''1'')])"
  by (simp add: test_host_def foo_frame_text json_eval)

lemma hi_frame_text: "hi_frame = ''{'' @ [CHR 0x22] @ ''type'' @ [CHR 0x22] @ '':'' @ [CHR 0x22] @ ''sendMessage'' @ [CHR 0x22]
    @ '','' @ [CHR 0x22] @ ''payload'' @ [CHR 0x22] @ '':{'' @ [CHR 0x22] @ ''text'' @ [CHR 0x22] @ '':'' @ [CHR 0x22] @ ''hi'' @ [CHR 0x22] @ ''}}''"
  by (simp add: hi_frame_def envelope_def object_def QuoteJSONString_def QuoteJSONChar_def dquote_def)

lemma parse_hi:
  "JSON_parse test_host hi_frame =
     Some (JObject [(''type'', JString ''sendMessage''), (''payload'', JObject [(''text'', JString ''hi'')])])"
  by (simp add: test_host_def hi_frame_text json_eval)

subsection \<open>A socket without an entry receives nothing\<close>




section \<open>The claims\<close>

subsection \<open>Routing helpers\<close>

text \<open>
  Claim C2. For every registry and message, \<open>broadcastAll\<close> returns (it never throws,
  however many sockets are not open) and writes the serialized message on every
  registered socket that is open: a socket's \<open>sent\<close> grows by one copy of
  \<open>JSON.stringify(message)\<close> for each registry entry that refers to it when it is
  open, wherever the entry stands in the iteration, and is unchanged when it is not.
\<close>

theorem broadcastAll_delivers:
  "returned (broadcastAll H message srv) \<and>
   sent (heap (final (broadcastAll H message srv)) ws) =
     (if readyState (heap srv ws) = OPEN
      then sent (heap srv ws) @
           replicate (length (filter (\<lambda>kv. snd kv = ws) (clients srv))) (JSON_stringify H message)
      else sent (heap srv ws))"
  by (simp add: broadcastAll_eq deliver_def)

theorem broadcastAll_delivers_witness:
  "returned (broadcastAll test_host (Msg_systemMessage ''echo:hi'') abc_server) \<and>
   sent (heap (final (broadcastAll test_host (Msg_systemMessage ''echo:hi'') abc_server)) 0) =
     [stringify_ServerMessage (Msg_systemMessage ''echo:hi'')] \<and>
   sent (heap (final (broadcastAll test_host (Msg_systemMessage ''echo:hi'') abc_server)) 1) = [] \<and>
   sent (heap (final (broadcastAll test_host (Msg_systemMessage ''echo:hi'') abc_server)) 2) =
     [stringify_ServerMessage (Msg_systemMessage ''echo:hi'')]"
  using broadcastAll_delivers [of test_host "Msg_systemMessage ''echo:hi''" abc_server 0]
    broadcastAll_delivers [of test_host "Msg_systemMessage ''echo:hi''" abc_server 1]
    broadcastAll_delivers [of test_host "Msg_systemMessage ''echo:hi''" abc_server 2]
  by (simp add: abc_server_def new_WSServer_def test_host_def)

text \<open>
  Claim C5. \<open>broadcastExcept\<close> returns and writes the serialized message on every open
  socket once for each registry entry that refers to it under an id other than the
  excluded one; entries under the excluded id write nothing. This holds for every
  registry, those with at least one connection included.
\<close>

theorem broadcastExcept_skips_excluded:
  "returned (broadcastExcept H excludeClientId message srv) \<and>
   sent (heap (final (broadcastExcept H excludeClientId message srv)) ws) =
     (if readyState (heap srv ws) = OPEN
      then sent (heap srv ws) @
           replicate (length (filter (\<lambda>kv. snd kv = ws \<and> fst kv \<noteq> excludeClientId) (clients srv)))
             (JSON_stringify H message)
      else sent (heap srv ws))"
  by (simp add: broadcastExcept_eq deliver_def)

theorem broadcastExcept_skips_excluded_witness:
  "clients abc_server \<noteq> [] \<and>
   sent (heap (final (broadcastExcept test_host ''A'' (Msg_userJoined ''Alice'') abc_server)) 0) = [] \<and>
   sent (heap (final (broadcastExcept test_host ''A'' (Msg_userJoined ''Alice'') abc_server)) 1) = [] \<and>
   sent (heap (final (broadcastExcept test_host ''A'' (Msg_userJoined ''Alice'') abc_server)) 2) =
     [stringify_ServerMessage (Msg_userJoined ''Alice'')]"
  using broadcastExcept_skips_excluded [of test_host "''A''" "Msg_userJoined ''Alice''" abc_server 0]
    broadcastExcept_skips_excluded [of test_host "''A''" "Msg_userJoined ''Alice''" abc_server 1]
    broadcastExcept_skips_excluded [of test_host "''A''" "Msg_userJoined ''Alice''" abc_server 2]
  by (simp add: abc_server_def new_WSServer_def test_host_def)

text \<open>
  Claim C6. When the id is not in the registry, or is there with a socket that is not
  open, \<open>sendTo\<close> returns normally and leaves everything as it was: no socket
  receives data.
\<close>

theorem sendTo_drops_silently:
  assumes "Map_get clientId (clients srv) = None \<or>
           (\<exists>ws. Map_get clientId (clients srv) = Some ws \<and> readyState (heap srv ws) \<noteq> OPEN)"
  shows "returned (sendTo H clientId message srv) \<and>
         final (sendTo H clientId message srv) = srv \<and>
         (\<forall>ws. sent (heap (final (sendTo H clientId message srv)) ws) = sent (heap srv ws))"
  using assms by (auto simp add: sendTo_eq)

theorem sendTo_drops_silently_witness:
  "Map_get ''nonexistent'' (clients abc_server) = None \<and>
   sendTo test_host ''nonexistent'' (Msg_welcome ''nonexistent'') abc_server = Returns abc_server \<and>
   Map_get ''B'' (clients abc_server) = Some 1 \<and> readyState (heap abc_server 1) = CLOSING \<and>
   sendTo test_host ''B'' (Msg_welcome ''B'') abc_server = Returns abc_server"
proof -
  have absent: "Map_get ''nonexistent'' (clients abc_server) = None"
    by (simp add: abc_server_def new_WSServer_def Map_get_def)
  have present: "Map_get ''B'' (clients abc_server) = Some 1"
    by (simp add: abc_server_def new_WSServer_def Map_get_def)
  have closing: "readyState (heap abc_server 1) = CLOSING"
    by (simp add: abc_server_def new_WSServer_def)
  have 1: "returned (sendTo test_host ''nonexistent'' (Msg_welcome ''nonexistent'') abc_server) \<and>
      final (sendTo test_host ''nonexistent'' (Msg_welcome ''nonexistent'') abc_server) = abc_server"
    using sendTo_drops_silently [of "''nonexistent''" abc_server test_host "Msg_welcome ''nonexistent''"] absent
    by simp
  have 2: "returned (sendTo test_host ''B'' (Msg_welcome ''B'') abc_server) \<and>
      final (sendTo test_host ''B'' (Msg_welcome ''B'') abc_server) = abc_server"
    using sendTo_drops_silently [of "''B''" abc_server test_host "Msg_welcome ''B''"] present closing
    by simp
  have r: "\<And>x s. returned x \<and> final x = s \<Longrightarrow> x = Returns s"
    subgoal for x s by (cases x) auto
    done
  show ?thesis
    using absent present closing r [OF 1] r [OF 2] by simp
qed

text \<open>
  Claim C7. A call of \<open>broadcastAll\<close> or \<open>broadcastExcept\<close> hands the message to
  \<open>JSON.stringify\<close> exactly once, and whatever it writes on a socket is copies of that
  one serialization.
\<close>

theorem broadcast_serializes_once:
  "stringified (final (broadcastAll H message srv)) = stringified srv @ [message] \<and>
   (\<exists>n. sent (heap (final (broadcastAll H message srv)) ws) =
          sent (heap srv ws) @ replicate n (JSON_stringify H message)) \<and>
   stringified (final (broadcastExcept H excludeClientId message srv)) = stringified srv @ [message] \<and>
   (\<exists>n. sent (heap (final (broadcastExcept H excludeClientId message srv)) ws) =
          sent (heap srv ws) @ replicate n (JSON_stringify H message))"
proof -
  have "\<exists>n. sent (deliver P (JSON_stringify H message) (clients srv) (heap srv) ws) =
          sent (heap srv ws) @ replicate n (JSON_stringify H message)" for P
  proof (cases "readyState (heap srv ws) = OPEN")
    case True
    then show ?thesis by (simp add: deliver_def)
  next
    case False
    then have "sent (deliver P (JSON_stringify H message) (clients srv) (heap srv) ws) =
          sent (heap srv ws) @ replicate 0 (JSON_stringify H message)"
      by (simp add: deliver_def)
    then show ?thesis by blast
  qed
  then show ?thesis
    by (simp add: broadcastAll_eq broadcastExcept_eq)
qed

theorem broadcast_serializes_once_witness:
  "stringified (final (broadcastAll test_host (Msg_userLeft ''Bob'') abc_server)) = [Msg_userLeft ''Bob''] \<and>
   stringified (final (broadcastExcept test_host ''C'' (Msg_userLeft ''Bob'') abc_server)) = [Msg_userLeft ''Bob'']"
  using broadcast_serializes_once [of test_host "Msg_userLeft ''Bob''" abc_server 0 "''C''"]
  by (simp add: abc_server_def new_WSServer_def)

text \<open>
  Claim C9. None of \<open>sendTo\<close>, \<open>broadcastAll\<close>, \<open>broadcastExcept\<close> changes the registry:
  the entries of \<open>clients\<close> are the same after the call as before.
\<close>

theorem helpers_keep_registry:
  "clients (final (sendTo H clientId message srv)) = clients srv \<and>
   clients (final (broadcastAll H message srv)) = clients srv \<and>
   clients (final (broadcastExcept H excludeClientId message srv)) = clients srv"
  using sendTo_routed [of H clientId message srv] broadcastAll_routed [of H message srv]
    broadcastExcept_routed [of H excludeClientId message srv]
  by (simp add: routed_def)

theorem helpers_keep_registry_witness:
  "clients (final (sendTo test_host ''A'' (Msg_userLeft ''Bob'') abc_server)) =
     [(''A'', 0), (''B'', 1), (''C'', 2)] \<and>
   clients (final (broadcastAll test_host (Msg_userLeft ''Bob'') abc_server)) =
     [(''A'', 0), (''B'', 1), (''C'', 2)] \<and>
   clients (final (broadcastExcept test_host ''C'' (Msg_userLeft ''Bob'') abc_server)) =
     [(''A'', 0), (''B'', 1), (''C'', 2)]"
  using helpers_keep_registry [of test_host "''A''" "Msg_userLeft ''Bob''" abc_server "''C''"]
  by (simp add: abc_server_def new_WSServer_def)

subsection \<open>Shutdown\<close>

text \<open>
  Claim C10. \<open>close()\<close> removes no entry: the registry and \<open>getClientCount()\<close> are the
  same right after the call as before it. It calls \<open>ws.close()\<close> on the registered
  sockets (and on no other) and releases the listener. An entry goes when the
  \<open>close\<close> listener of its connection runs afterwards.
\<close>

theorem close_keeps_registry:
  "clients (close srv) = clients srv \<and>
   getClientCount (close srv) = getClientCount srv \<and>
   wss_closed (close srv) \<and>
   heap (close srv) ws = (if ws \<in> snd ` set (clients srv) then heap (ws_close ws srv) ws else heap srv ws) \<and>
   clients (final (close_listener H clientId (close srv))) = Map_delete clientId (clients srv) \<and>
   Map_get clientId (clients (final (close_listener H clientId (close srv)))) = None"
  by (simp add: close_fields [of srv ws] getClientCount_def close_listener_fields Map_get_Map_delete ws_close_def)

theorem close_keeps_registry_witness:
  "getClientCount abc_server = 3 \<and> getClientCount (close abc_server) = 3 \<and>
   wss_closed (close abc_server) \<and>
   readyState (heap (close abc_server) 0) = CLOSING \<and>
   clients (final (close_listener test_host ''A'' (close abc_server))) = [(''B'', 1), (''C'', 2)]"
  using close_keeps_registry [of abc_server 0 test_host "''A''"]
  by (simp add: abc_server_def new_WSServer_def getClientCount_def Map_size_def Map_delete_def ws_close_def)

subsection \<open>Dispatcher\<close>

text \<open>
  Claim C4, amended. Take a connection that is open and registered under the id of
  its listeners. A frame on which \<open>JSON.parse\<close> throws is answered with exactly one
  serialized \<open>error\<close> message on that socket; no other socket receives anything,
  no callback of the application is invoked, the listener returns, and the connection
  stays registered and open. A frame that \<open>JSON.parse\<close> accepts is handed to
  \<open>handleMessage\<close>, whatever its structure.
\<close>

theorem parse_failure_answers_sender_only:
  fixes srv :: "('st, 'j) WSServer" and H :: "'j host"
  assumes "listeners (heap srv ws) = [clientId]"
    and "Map_get clientId (clients srv) = Some ws"
    and "readyState (heap srv ws) = OPEN"
  shows "(JSON_parse H data = None \<longrightarrow>
      returned (step H (OnMessage ws data) srv) \<and>
      sent (heap (final (step H (OnMessage ws data) srv)) ws) =
        sent (heap srv ws) @ [JSON_stringify H (Msg_error ''Invalid message format'')] \<and>
      (\<forall>w. w \<noteq> ws \<longrightarrow> sent (heap (final (step H (OnMessage ws data) srv)) w) = sent (heap srv w)) \<and>
      invoked (final (step H (OnMessage ws data) srv)) = invoked srv \<and>
      state (final (step H (OnMessage ws data) srv)) = state srv \<and>
      clients (final (step H (OnMessage ws data) srv)) = clients srv \<and>
      readyState (heap (final (step H (OnMessage ws data) srv)) ws) = OPEN) \<and>
    (\<forall>message. JSON_parse H data = Some message \<longrightarrow>
      invoked (final (step H (OnMessage ws data) srv)) = invoked srv @ [HandleMessage clientId message])"
proof (intro conjI impI allI)
  assume none: "JSON_parse H data = None"
  have st: "step H (OnMessage ws data) srv = sendTo H clientId (Msg_error ''Invalid message format'') srv"
    using assms(1) none by (simp add: emit_single message_listener_def)
  show "returned (step H (OnMessage ws data) srv)"
    and "sent (heap (final (step H (OnMessage ws data) srv)) ws) =
        sent (heap srv ws) @ [JSON_stringify H (Msg_error ''Invalid message format'')]"
    and "invoked (final (step H (OnMessage ws data) srv)) = invoked srv"
    and "state (final (step H (OnMessage ws data) srv)) = state srv"
    and "clients (final (step H (OnMessage ws data) srv)) = clients srv"
    and "readyState (heap (final (step H (OnMessage ws data) srv)) ws) = OPEN"
    unfolding st using assms(2,3) by (simp_all add: sendTo_eq)
  show "sent (heap (final (step H (OnMessage ws data) srv)) w) = sent (heap srv w)" if "w \<noteq> ws" for w
    unfolding st using assms(2,3) that by (simp add: sendTo_eq)
next
  fix message
  assume some: "JSON_parse H data = Some message"
  let ?i = "invoke H (HandleMessage clientId message)
      (handleMessage (appLogic srv) (state srv) clientId message) srv"
  have st: "step H (OnMessage ws data) srv =
      (case ?i of Returns s \<Rightarrow> Returns s
       | Throws s \<Rightarrow> sendTo H clientId (Msg_error ''Invalid message format'') s)"
    using assms(1) some by (simp add: emit_single message_listener_def)
  have i: "invoked (final ?i) = invoked srv @ [HandleMessage clientId message]"
    using invoke_fields [of H "HandleMessage clientId message" _ srv] by blast
  show "invoked (final (step H (OnMessage ws data) srv)) = invoked srv @ [HandleMessage clientId message]"
    unfolding st using i by (cases ?i) (simp_all add: sendTo_fields)
qed

theorem parse_failure_answers_sender_only_witness:
  "listeners (heap abc_server 0) = [''A''] \<and>
   Map_get ''A'' (clients abc_server) = Some 0 \<and> readyState (heap abc_server 0) = OPEN \<and>
   JSON_parse test_host ''oops'' = None \<and>
   returned (step test_host (OnMessage 0 ''oops'') abc_server) \<and>
   sent (heap (final (step test_host (OnMessage 0 ''oops'') abc_server)) 0) =
     [stringify_ServerMessage (Msg_error ''Invalid message format'')] \<and>
   sent (heap (final (step test_host (OnMessage 0 ''oops'') abc_server)) 2) = [] \<and>
   invoked (final (step test_host (OnMessage 0 ''oops'') abc_server)) = [] \<and>
   JSON_parse test_host hi_frame =
     Some (JObject [(''type'', JString ''sendMessage''), (''payload'', JObject [(''text'', JString ''hi'')])]) \<and>
   invoked (final (step test_host (OnMessage 0 hi_frame) abc_server)) =
     [HandleMessage ''A''
       (JObject [(''type'', JString ''sendMessage''), (''payload'', JObject [(''text'', JString ''hi'')])])]"
proof -
  have 1: "listeners (heap abc_server 0) = [''A'']"
    by (simp add: abc_server_def new_WSServer_def)
  have 2: "Map_get ''A'' (clients abc_server) = Some 0"
    by (simp add: abc_server_def new_WSServer_def Map_get_def)
  have 3: "readyState (heap abc_server 0) = OPEN"
    by (simp add: abc_server_def new_WSServer_def)
  have 4: "sent (heap abc_server w) = []" "invoked abc_server = []" for w
    by (simp_all add: abc_server_def new_WSServer_def)
  have s: "JSON_stringify test_host = stringify_ServerMessage"
    by (simp add: test_host_def)
  note T = parse_failure_answers_sender_only [OF 1 2 3, of test_host]
  have a: "returned (step test_host (OnMessage 0 ''oops'') abc_server)"
    "sent (heap (final (step test_host (OnMessage 0 ''oops'') abc_server)) 0) =
       sent (heap abc_server 0) @ [JSON_stringify test_host (Msg_error ''Invalid message format'')]"
    "sent (heap (final (step test_host (OnMessage 0 ''oops'') abc_server)) 2) = sent (heap abc_server 2)"
    "invoked (final (step test_host (OnMessage 0 ''oops'') abc_server)) = invoked abc_server"
    using T [of "''oops''"] parse_oops by simp_all
  have b: "invoked (final (step test_host (OnMessage 0 hi_frame) abc_server)) =
     invoked abc_server @ [HandleMessage ''A''
       (JObject [(''type'', JString ''sendMessage''), (''payload'', JObject [(''text'', JString ''hi'')])])]"
    using T [of hi_frame] parse_hi by blast
  show ?thesis
    using 1 2 3 parse_oops parse_hi a b by (simp only: 4 s append_Nil simp_thms)
qed

text \<open>
  A frame that is JSON but has no \<open>type\<close> is parsed, not rejected: the dispatcher
  invokes \<open>handleMessage\<close> with it, and the error the client then receives is the
  application's own.
\<close>

theorem json_of_no_message_reaches_handler:
  "JSON_parse test_host foo_frame = Some (JObject [(''foo'', JNumber ''1'')]) \<and>
   invoked (final (run test_host [OnConnection 1700000000000 ''0.i'', OnMessage 0 foo_frame]
      (new_WSServer testAppLogic))) =
     [HandleConnect ''client_1700000000000_i'',
      HandleMessage ''client_1700000000000_i'' (JObject [(''foo'', JNumber ''1'')])] \<and>
   sent (heap (final (run test_host [OnConnection 1700000000000 ''0.i'', OnMessage 0 foo_frame]
      (new_WSServer testAppLogic))) 0) =
     [stringify_ServerMessage (Msg_welcome ''client_1700000000000_i''),
      stringify_ServerMessage (Msg_error ''Unknown message type'')]"
proof -
  have id0: "generateClientId 1700000000000 ''0.i'' = ''client_1700000000000_i''"
    by (simp add: generateClientId_def decimal.simps substring_def digit_char_def char_of_eq_iff)
  have p: "JSON_parse_text foo_frame = Some (JObject [(''foo'', JNumber ''1'')])"
    using parse_foo by (simp add: test_host_def)
  have r: "invoked (final (run test_host [OnConnection 1700000000000 ''0.i'', OnMessage 0 foo_frame]
      (new_WSServer testAppLogic))) =
     [HandleConnect ''client_1700000000000_i'',
      HandleMessage ''client_1700000000000_i'' (JObject [(''foo'', JNumber ''1'')])]"
    "sent (heap (final (run test_host [OnConnection 1700000000000 ''0.i'', OnMessage 0 foo_frame]
      (new_WSServer testAppLogic))) 0) =
     [stringify_ServerMessage (Msg_welcome ''client_1700000000000_i''),
      stringify_ServerMessage (Msg_error ''Unknown message type'')]"
    by (simp_all add: run_def new_WSServer_def accept_def connection_listener_def Let_def
      setupClientHandlers_def invoke_def sendTo_def Map_get_def ws_send_def emit_def
      message_listener_def id0 p test_host_def testAppLogic_def member_def
      del: stringify_ServerMessage.simps)
  show ?thesis
    using parse_foo r by (simp only: simp_thms)
qed




text \<open>
  The count of claim C3 where ids are unique. Start from a new server and let it
  handle any events. If the ids generated for the accepted connections are pairwise
  distinct and no socket emits \<open>close\<close> twice, then \<open>getClientCount()\<close> is the number
  of \<open>handleConnect\<close> invocations minus the number of \<open>handleDisconnect\<close>
  invocations, also when an uncaught exception of the application has stopped the
  server.
\<close>

theorem count_is_connects_minus_disconnects:
  fixes H :: "'j host" and logic :: "('st, 'j) AppLogic"
  assumes "distinct (accepted_ids evs)" and "distinct (closed_socks evs)"
  shows "int (getClientCount (final (run H evs (new_WSServer logic)))) =
         int (connects (invoked (final (run H evs (new_WSServer logic))))) -
         int (disconnects (invoked (final (run H evs (new_WSServer logic)))))"
  using inv_run [OF assms, of H logic] by (simp add: registry_inv_def getClientCount_def)

theorem count_is_connects_minus_disconnects_witness:
  "distinct (accepted_ids [OnConnection 1700000000000 ''0.i'', OnConnection 1700000000001 ''0.i'', OnClose 0]) \<and>
   distinct (closed_socks [OnConnection 1700000000000 ''0.i'', OnConnection 1700000000001 ''0.i'', OnClose 0]) \<and>
   getClientCount (final (run test_host
     [OnConnection 1700000000000 ''0.i'', OnConnection 1700000000001 ''0.i'', OnClose 0]
     (new_WSServer testAppLogic))) = 1 \<and>
   connects (invoked (final (run test_host
     [OnConnection 1700000000000 ''0.i'', OnConnection 1700000000001 ''0.i'', OnClose 0]
     (new_WSServer testAppLogic)))) = 2 \<and>
   disconnects (invoked (final (run test_host
     [OnConnection 1700000000000 ''0.i'', OnConnection 1700000000001 ''0.i'', OnClose 0]
     (new_WSServer testAppLogic)))) = 1"
proof -
  let ?evs = "[OnConnection 1700000000000 ''0.i'', OnConnection 1700000000001 ''0.i'', OnClose 0]"
  let ?f = "final (run test_host ?evs (new_WSServer testAppLogic))"
  have a: "distinct (accepted_ids ?evs)"
    by (simp add: generateClientId_eq_iff)
  have c: "distinct (closed_socks ?evs)"
    by simp
  have eq: "int (getClientCount ?f) = int (connects (invoked ?f)) - int (disconnects (invoked ?f))"
    using a c by (rule count_is_connects_minus_disconnects)
  have ne: "generateClientId 1700000000001 ''0.i'' \<noteq> generateClientId 1700000000000 ''0.i''"
    by (simp add: generateClientId_eq_iff)
  have i: "invoked ?f = [HandleConnect (generateClientId 1700000000000 ''0.i''),
      HandleConnect (generateClientId 1700000000001 ''0.i''),
      HandleDisconnect (generateClientId 1700000000000 ''0.i'')]"
    using ne
    by (simp add: run_def new_WSServer_def testAppLogic_def accept_def connection_listener_def Let_def
      setupClientHandlers_def invoke_def sendTo_def Map_get_def ws_send_def emit_def close_listener_def
      Map_delete_def)
  have "connects (invoked ?f) = 2" "disconnects (invoked ?f) = 1"
    by (simp_all add: i connects_def disconnects_def)
  then show ?thesis
    using a c eq by simp
qed

text \<open>
  Claim C3 at two connections that are given the same id, which \<open>generateClientId\<close>
  allows although it is documented to generate a unique id: the second \<open>clients.set\<close>
  overwrites the entry of the first, so \<open>getClientCount()\<close> is 1 after two
  \<open>handleConnect\<close> invocations and no \<open>handleDisconnect\<close>.
\<close>

theorem collision_breaks_count:
  "getClientCount (final (run test_host
       [OnConnection 1700000000000 ''0.i'', OnConnection 1700000000000 ''0.i'']
       (new_WSServer testAppLogic))) = 1 \<and>
   connects (invoked (final (run test_host
       [OnConnection 1700000000000 ''0.i'', OnConnection 1700000000000 ''0.i'']
       (new_WSServer testAppLogic)))) = 2 \<and>
   disconnects (invoked (final (run test_host
       [OnConnection 1700000000000 ''0.i'', OnConnection 1700000000000 ''0.i'']
       (new_WSServer testAppLogic)))) = 0"
proof -
  have id: "generateClientId 1700000000000 ''0.i'' = ''client_1700000000000_i''"
    by (simp add: generateClientId_def decimal.simps substring_def digit_char_def char_of_eq_iff)
  show ?thesis
    by (simp add: run_def new_WSServer_def testAppLogic_def accept_def connection_listener_def Let_def
      setupClientHandlers_def invoke_def sendTo_def Map_get_def ws_send_def id
      getClientCount_def Map_size_def connects_def disconnects_def)
qed

subsection \<open>Identity generator\<close>

text \<open>
  What \<open>generateClientId\<close> does guarantee. The id is a function of the clock
  reading and of the nine characters that \<open>substring(2, 11)\<close> keeps of the random
  text: the ids of any connections are pairwise distinct exactly when their pairs of
  clock reading and kept characters are.
\<close>

theorem ids_distinct_iff_readings_distinct:
  "distinct (map (\<lambda>(now, random36). generateClientId now random36) readings) \<longleftrightarrow>
   distinct (map (\<lambda>(now, random36). (now, substring 2 11 random36)) readings)"
  by (rule distinct_map_same_kernel) (auto simp add: generateClientId_eq_iff)

theorem ids_distinct_iff_readings_distinct_witness:
  "distinct (map (\<lambda>(now, random36). generateClientId now random36)
      [(1700000000000, ''0.i''), (1700000000001, ''0.i''), (1700000000001, ''0.4fzyo82mvyr'')]) \<and>
   \<not> distinct (map (\<lambda>(now, random36). generateClientId now random36)
      [(1700000000000, ''0.4fzyo82mvyr''), (1700000000000, ''0.4fzyo82mvzz'')])"
  using ids_distinct_iff_readings_distinct
      [of "[(1700000000000, ''0.i''), (1700000000001, ''0.i''), (1700000000001, ''0.4fzyo82mvyr'')]"]
    ids_distinct_iff_readings_distinct
      [of "[(1700000000000, ''0.4fzyo82mvyr''), (1700000000000, ''0.4fzyo82mvzz'')]"]
  by (simp add: substring_def)

text \<open>
  Claim C8 at two connections accepted with the same clock reading and the same
  random text: both are open, and the listeners of both are bound to one id, where
  \<open>generateClientId\<close> is documented to generate a unique id.
\<close>

theorem same_reading_same_id:
  "readyState (heap (final (run test_host
       [OnConnection 1700000000000 ''0.i'', OnConnection 1700000000000 ''0.i'']
       (new_WSServer testAppLogic))) 0) = OPEN \<and>
   readyState (heap (final (run test_host
       [OnConnection 1700000000000 ''0.i'', OnConnection 1700000000000 ''0.i'']
       (new_WSServer testAppLogic))) 1) = OPEN \<and>
   listeners (heap (final (run test_host
       [OnConnection 1700000000000 ''0.i'', OnConnection 1700000000000 ''0.i'']
       (new_WSServer testAppLogic))) 0) = [''client_1700000000000_i''] \<and>
   listeners (heap (final (run test_host
       [OnConnection 1700000000000 ''0.i'', OnConnection 1700000000000 ''0.i'']
       (new_WSServer testAppLogic))) 1) = [''client_1700000000000_i'']"
proof -
  have id: "generateClientId 1700000000000 ''0.i'' = ''client_1700000000000_i''"
    by (simp add: generateClientId_def decimal.simps substring_def digit_char_def char_of_eq_iff)
  show ?thesis
    by (simp add: run_def new_WSServer_def testAppLogic_def accept_def connection_listener_def Let_def
      setupClientHandlers_def invoke_def sendTo_def Map_get_def ws_send_def id)
qed

end
